theory Spec2Isabelle
  imports Main
begin

section \<open>Python string primitives used by \<open>test_finder_utils.py\<close>\<close>

text \<open>
  Strings are byte strings (\<open>char list\<close>), as the Python 2 \<open>str\<close> values the module
  works on. The functions below follow the CPython library functions that the module
  calls; each is named after the call it stands for.
\<close>

definition newline :: char where
  "newline = CHR 0x0A"

text \<open>The six characters of \<open>string.whitespace\<close>, which \<open>strip()\<close> removes and \<open>\s\<close> matches.\<close>

definition isspace :: "char \<Rightarrow> bool" where
  "isspace c = (c \<in> set [CHR 0x20, CHR 0x09, CHR 0x0A, CHR 0x0B, CHR 0x0C, CHR 0x0D])"

definition isdigit :: "char \<Rightarrow> bool" where
  "isdigit c = (c \<in> set ''0123456789'')"

text \<open>ASCII lower-casing, as the \<open>re.I\<close> flag compares letters of a byte pattern.\<close>

definition lower :: "char \<Rightarrow> char" where
  "lower c =
     (case map_of (zip ''ABCDEFGHIJKLMNOPQRSTUVWXYZ'' ''abcdefghijklmnopqrstuvwxyz'') c of
        Some l \<Rightarrow> l
      | None \<Rightarrow> c)"

definition lstrip :: "string \<Rightarrow> string" where
  "lstrip s = dropWhile isspace s"

definition rstrip :: "string \<Rightarrow> string" where
  "rstrip s = rev (dropWhile isspace (rev s))"

definition strip :: "string \<Rightarrow> string" where
  "strip s = lstrip (rstrip s)"

text \<open>\<open>s.strip(chars)\<close> and \<open>s.rstrip(chars)\<close> for an explicit set of characters.\<close>

definition rstrip_chars :: "string \<Rightarrow> string \<Rightarrow> string" where
  "rstrip_chars chars s = rev (dropWhile (\<lambda>c. c \<in> set chars) (rev s))"

definition strip_chars :: "string \<Rightarrow> string \<Rightarrow> string" where
  "strip_chars chars s = dropWhile (\<lambda>c. c \<in> set chars) (rstrip_chars chars s)"

text \<open>\<open>s.startswith(p)\<close> and \<open>s.endswith(p)\<close>.\<close>

definition startswith :: "string \<Rightarrow> string \<Rightarrow> bool" where
  "startswith s p = (take (length p) s = p)"

definition endswith :: "string \<Rightarrow> string \<Rightarrow> bool" where
  "endswith s p = (length p \<le> length s \<and> drop (length s - length p) s = p)"

text \<open>
  \<open>s.split(sep)\<close> for a separator string: the pieces between the non-overlapping
  occurrences of \<open>sep\<close>, found from the left. The empty string splits into \<open>['']\<close>.
  Python raises \<open>ValueError\<close> on an empty separator; every call site of the module
  passes a non-empty literal, and here an empty separator never splits. The result is
  never the empty list (\<open>split_str_not_Nil\<close> below), so the inner \<open>[]\<close> case is not
  reached and \<open>hd\<close> of the result is Python's \<open>s.split(sep)[0]\<close>.
\<close>

function split_str :: "string \<Rightarrow> string \<Rightarrow> string list" where
  "split_str sep s =
     (if sep \<noteq> [] \<and> startswith s sep then [] # split_str sep (drop (length sep) s)
      else (case s of
              [] \<Rightarrow> [[]]
            | c # cs \<Rightarrow> (case split_str sep cs of
                          [] \<Rightarrow> [[c]]
                        | p # ps \<Rightarrow> (c # p) # ps)))"
  by pat_completeness auto
termination
proof (relation "measure (\<lambda>(sep, s). length s)")
  show "wf (measure (\<lambda>(sep, s). length s))" by simp
next
  fix sep s :: string
  assume "sep \<noteq> [] \<and> startswith s sep"
  then have "0 < length sep" and "s \<noteq> []"
    by (auto simp: startswith_def)
  then show "((sep, drop (length sep) s), (sep, s)) \<in> measure (\<lambda>(sep, s). length s)"
    by simp
next
  fix sep s :: string and c cs
  assume "s = c # cs"
  then show "((sep, cs), (sep, s)) \<in> measure (\<lambda>(sep, s). length s)"
    by simp
qed

declare split_str.simps [simp del]

text \<open>\<open>sub in s\<close> for strings: \<open>sub\<close> occurs in \<open>s\<close> as a contiguous slice.\<close>

fun contains :: "string \<Rightarrow> string \<Rightarrow> bool" where
  "contains [] sub = (sub = [])"
| "contains (c # cs) sub = (startswith (c # cs) sub \<or> contains cs sub)"

text \<open>\<open>sep.join(xs)\<close>.\<close>

fun str_join :: "string \<Rightarrow> string list \<Rightarrow> string" where
  "str_join sep [] = []"
| "str_join sep [x] = x"
| "str_join sep (x # y # ys) = x @ sep @ str_join sep (y # ys)"

text \<open>\<open>'%s' % n\<close> for a non-negative integer: its decimal digits.\<close>

fun show_nat :: "nat \<Rightarrow> string" where
  "show_nat n =
     (if n < 10 then [''0123456789'' ! n]
      else show_nat (n div 10) @ [''0123456789'' ! (n mod 10)])"

declare show_nat.simps [simp del]

section \<open>Errors\<close>

datatype error =
    TooManyMethodsError
  | MissingPackageNameError string
  | TestWithNoModuleError
  | ValueError
  | IndexError
  | KeyError string
  | IOError
  | EOFError

section \<open>Regular expressions of the module\<close>

text \<open>
  The three compiled patterns of the module are sequences of single-character classes,
  each taken once or under a greedy \<open>*\<close> or \<open>+\<close>, with at most one named group and an
  optional final \<open>$\<close>. \<open>rmatch\<close> is the backtracking matcher of \<open>pattern.match(s)\<close>
  on such sequences: it is anchored at the start of \<open>s\<close>, need not consume all of \<open>s\<close>,
  lets a greedy quantifier take the longest run first and give characters back one at a
  time, and returns the text of the group on the first path that succeeds (\<open>None\<close> when
  no path does). \<open>$\<close> holds at the end of the string and just before a final newline.
\<close>

datatype cclass =
    Lit char
  | LitI char
  | Space
  | Not char
  | Dot

fun cmatch :: "cclass \<Rightarrow> char \<Rightarrow> bool" where
  "cmatch (Lit a) c = (c = a)"
| "cmatch (LitI a) c = (lower c = lower a)"
| "cmatch Space c = isspace c"
| "cmatch (Not a) c = (c \<noteq> a)"
| "cmatch Dot c = (c \<noteq> newline)"

datatype quant = One | Star | Plus

datatype item = Cls cclass quant bool | Eos

definition cap :: "bool \<Rightarrow> char \<Rightarrow> string \<Rightarrow> string" where
  "cap grouped c g = (if grouped then c # g else g)"

fun rmatch :: "item list \<Rightarrow> string \<Rightarrow> string option" where
  "rmatch [] s = Some []"
| "rmatch (Eos # r) s = (if s = [] \<or> s = [newline] then rmatch r s else None)"
| "rmatch (Cls k One g # r) [] = None"
| "rmatch (Cls k One g # r) (c # cs) =
     (if cmatch k c then map_option (cap g c) (rmatch r cs) else None)"
| "rmatch (Cls k Plus g # r) [] = None"
| "rmatch (Cls k Plus g # r) (c # cs) =
     (if cmatch k c then map_option (cap g c) (rmatch (Cls k Star g # r) cs) else None)"
| "rmatch (Cls k Star g # r) [] = rmatch r []"
| "rmatch (Cls k Star g # r) (c # cs) =
     (if cmatch k c
      then (case rmatch (Cls k Star g # r) cs of
              Some x \<Rightarrow> Some (cap g c x)
            | None \<Rightarrow> rmatch r (c # cs))
      else rmatch r (c # cs))"

text \<open>
  \<open>_APK_RE = re.compile(r'^[^/]+\.apk$', re.I)\<close>; the leading \<open>^\<close> holds where
  \<open>match\<close> starts.
\<close>

definition APK_RE :: "item list" where
  "APK_RE = [Cls (Not (CHR ''/'')) Plus False, Cls (Lit (CHR ''.'')) One False,
             Cls (LitI (CHR ''a'')) One False, Cls (LitI (CHR ''p'')) One False,
             Cls (LitI (CHR ''k'')) One False, Eos]"

text \<open>\<open>_PACKAGE_RE = re.compile(r'\s*package\s+(?P<package>[^;]+)\s*;\s*', re.I)\<close>\<close>

definition PACKAGE_RE :: "item list" where
  "PACKAGE_RE = [Cls Space Star False,
                 Cls (LitI (CHR ''p'')) One False, Cls (LitI (CHR ''a'')) One False,
                 Cls (LitI (CHR ''c'')) One False, Cls (LitI (CHR ''k'')) One False,
                 Cls (LitI (CHR ''a'')) One False, Cls (LitI (CHR ''g'')) One False,
                 Cls (LitI (CHR ''e'')) One False,
                 Cls Space Plus False, Cls (Not (CHR '';'')) Plus True,
                 Cls Space Star False, Cls (Lit (CHR '';'')) One False,
                 Cls Space Star False]"

text \<open>\<open>_VTS_BINARY_SRC_DELIM_RE = re.compile(r'.*::(?P<target>.*)$')\<close>\<close>

definition VTS_BINARY_SRC_DELIM_RE :: "item list" where
  "VTS_BINARY_SRC_DELIM_RE =
     [Cls Dot Star False, Cls (Lit (CHR '':'')) One False, Cls (Lit (CHR '':'')) One False,
      Cls Dot Star True, Eos]"

section \<open>\<open>os.path\<close> (posixpath)\<close>

text \<open>
  \<open>os.path.join(a, b)\<close>: an absolute \<open>b\<close> replaces \<open>a\<close>; otherwise the two are joined
  with one slash unless \<open>a\<close> is empty or already ends with one.
\<close>

definition os_join :: "string \<Rightarrow> string \<Rightarrow> string" where
  "os_join a b =
     (if startswith b ''/'' then b
      else if a = [] \<or> endswith a ''/'' then a @ b
      else a @ ''/'' @ b)"

text \<open>
  \<open>os.path.split(p)\<close>: cut after the last slash; the head loses its trailing slashes
  unless it consists of slashes only. \<open>os.path.dirname(p)\<close> is the head.
\<close>

definition os_split :: "string \<Rightarrow> string \<times> string" where
  "os_split p =
     (let tail = rev (takeWhile (\<lambda>c. c \<noteq> CHR ''/'') (rev p));
          head = rev (dropWhile (\<lambda>c. c \<noteq> CHR ''/'') (rev p))
      in (if head \<noteq> [] \<and> (\<exists>c \<in> set head. c \<noteq> CHR ''/'') then rstrip_chars ''/'' head
          else head, tail))"

definition dirname :: "string \<Rightarrow> string" where
  "dirname p = fst (os_split p)"

text \<open>
  \<open>os.path.splitext(p)\<close>: cut at the last dot when that dot comes after the last slash
  and some character other than a dot stands between the two; otherwise the extension
  is empty.
\<close>

definition splitext :: "string \<Rightarrow> string \<times> string" where
  "splitext p =
     (let ext = rev (takeWhile (\<lambda>c. c \<noteq> CHR ''.'') (rev p))
      in if CHR ''.'' \<in> set p \<and> CHR ''/'' \<notin> set ext
         then (let root = take (length p - length ext - 1) p;
                   name = rev (takeWhile (\<lambda>c. c \<noteq> CHR ''/'') (rev root))
               in if \<exists>c \<in> set name. c \<noteq> CHR ''.'' then (root, drop (length root) p)
                  else (p, []))
         else (p, []))"

text \<open>\<open>os.path.commonprefix([a, b])\<close>: the longest common prefix, character by character.\<close>

fun commonprefix :: "string \<Rightarrow> string \<Rightarrow> string" where
  "commonprefix (a # as) (b # bs) = (if a = b then a # commonprefix as bs else [])"
| "commonprefix [] bs = []"
| "commonprefix as [] = []"

section \<open>The environment\<close>

text \<open>
  What the module reads from outside: the directory tree (\<open>os.path.isdir\<close>,
  \<open>os.path.isfile\<close>, \<open>os.path.realpath\<close>), \<open>os.path.relpath\<close> (which resolves its
  arguments against the working directory), the lines of text files as iterating over an
  open file yields them (\<open>None\<close> when \<open>open\<close> fails), the trees that \<open>ET.parse\<close>
  reads from XML files (\<open>None\<close> when the file cannot be opened, which raises
  \<open>IOError\<close>), and the environment variable \<open>ANDROID_BUILD_TOP\<close> (empty when unset).
\<close>

datatype element = Element (tag: string) (attrib: "(string \<times> string) list") (children: "element list")

record env =
  isdir :: "string \<Rightarrow> bool"
  isfile :: "string \<Rightarrow> bool"
  realpath :: "string \<Rightarrow> string"
  relpath :: "string \<Rightarrow> string \<Rightarrow> string"
  file_lines :: "string \<Rightarrow> string list option"
  xml_files :: "string \<Rightarrow> element option"
  android_build_top :: string

text \<open>The console: the lines still to be typed, and what has been written so far.\<close>

record console =
  stdin :: "string list"
  stdout :: "string list"

section \<open>XML trees\<close>

text \<open>
  \<open>root.findall('.//option')\<close> and \<open>root.findall('.//*[@class]')\<close> select among the
  elements below the root, at every depth, in document order. \<open>tag.attrib[k]\<close> raises
  \<open>KeyError\<close> when the element has no attribute \<open>k\<close>.
\<close>

fun subelements :: "element \<Rightarrow> element list" where
  "subelements (Element t a cs) = concat (map (\<lambda>c. c # subelements c) cs)"

definition findall_option :: "element \<Rightarrow> element list" where
  "findall_option xml_root = filter (\<lambda>e. tag e = ''option'') (subelements xml_root)"

definition findall_with_class :: "element \<Rightarrow> element list" where
  "findall_with_class xml_root =
     filter (\<lambda>e. map_of (attrib e) ''class'' \<noteq> None) (subelements xml_root)"

definition get_attr :: "element \<Rightarrow> string \<Rightarrow> error + string" where
  "get_attr e k = (case map_of (attrib e) k of None \<Rightarrow> Inl (KeyError k) | Some v \<Rightarrow> Inr v)"

text \<open>A \<open>for\<close> loop over a list whose body may raise: the first error ends the loop.\<close>

fun for_each :: "('a \<Rightarrow> 's \<Rightarrow> error + 's) \<Rightarrow> 'a list \<Rightarrow> 's \<Rightarrow> error + 's" where
  "for_each body [] s = Inr s"
| "for_each body (x # xs) s =
     (case body x s of Inl err \<Rightarrow> Inl err | Inr s' \<Rightarrow> for_each body xs s')"


section \<open>Constants of the module\<close>

definition COMPATIBILITY_PACKAGE_PREFIX :: string where
  "COMPATIBILITY_PACKAGE_PREFIX = ''com.android.compatibility''"

definition CTS_JAR :: string where
  "CTS_JAR = ''cts-tradefed''"

definition PERF_SETUP_LABEL :: string where
  "PERF_SETUP_LABEL = ''perf-setup.sh''"


definition XML_VALUE :: string where
  "XML_VALUE = ''value''"





definition VTS_PUSH_DELIM :: string where
  "VTS_PUSH_DELIM = ''->''"

definition VTS_PUSH_DIR :: "env \<Rightarrow> string" where
  "VTS_PUSH_DIR e =
     foldl os_join (android_build_top e)
       [''test'', ''vts'', ''tools'', ''vts-tradefed'', ''res'', ''push_groups'']"

definition VTS_PUSH_SUFFIX :: string where
  "VTS_PUSH_SUFFIX = ''.push''"





section \<open>\<open>split_methods\<close>\<close>

text \<open>
  \<^verbatim>\<open>
  parts = user_input.split('#')
  if len(parts) == 1:
      return parts[0], frozenset()
  elif len(parts) == 2:
      return parts[0], frozenset(parts[1].split(','))
  raise atest_error.TooManyMethodsError(...)
  \<close>
\<close>

definition split_methods :: "string \<Rightarrow> error + (string \<times> string set)" where
  "split_methods user_input =
     (case split_str ''#'' user_input of
        [p] \<Rightarrow> Inr (p, {})
      | [p, m] \<Rightarrow> Inr (p, set (split_str '','' m))
      | _ \<Rightarrow> Inl TooManyMethodsError)"

section \<open>\<open>get_fully_qualified_class_name\<close>\<close>

text \<open>
  \<^verbatim>\<open>
  with open(test_path) as class_file:
      for line in class_file:
          match = _PACKAGE_RE.match(line)
          if match:
              package = match.group('package')
              cls = os.path.splitext(os.path.split(test_path)[1])[0]
              return '%s.%s' % (package, cls)
  raise atest_error.MissingPackageNameError(test_path)
  \<close>
\<close>

fun scan_class_file :: "string \<Rightarrow> string list \<Rightarrow> error + string" where
  "scan_class_file test_path [] = Inl (MissingPackageNameError test_path)"
| "scan_class_file test_path (line # rest) =
     (case rmatch PACKAGE_RE line of
        Some package \<Rightarrow>
          (let cls = fst (splitext (snd (os_split test_path)))
           in Inr (package @ ''.'' @ cls))
      | None \<Rightarrow> scan_class_file test_path rest)"

definition get_fully_qualified_class_name :: "env \<Rightarrow> string \<Rightarrow> error + string" where
  "get_fully_qualified_class_name e test_path =
     (case file_lines e test_path of
        None \<Rightarrow> Inl IOError
      | Some class_file \<Rightarrow> scan_class_file test_path class_file)"

section \<open>\<open>extract_test_path\<close>\<close>

text \<open>
  \<open>int(s)\<close> for a string, as CPython 2.7 reads a base-10 literal: surrounding
  whitespace is dropped, one sign may come first (whitespace may follow it), and what
  remains must be one or more decimal digits; anything else raises \<open>ValueError\<close>.
\<close>

fun digits_val :: "nat \<Rightarrow> string \<Rightarrow> nat" where
  "digits_val acc [] = acc"
| "digits_val acc (c # cs) = digits_val (10 * acc + (of_char c - 48)) cs"

definition py_int :: "string \<Rightarrow> int option" where
  "py_int s =
     (let t = strip s;
          neg = (t \<noteq> [] \<and> hd t = CHR ''-'');
          ds = (if t \<noteq> [] \<and> (hd t = CHR ''-'' \<or> hd t = CHR ''+'') then lstrip (tl t) else t)
      in if ds \<noteq> [] \<and> (\<forall>c \<in> set ds. isdigit c)
         then Some (if neg then - int (digits_val 0 ds) else int (digits_val 0 ds))
         else None)"

text \<open>\<open>xs[i]\<close>: a negative index counts from the end; out of range raises \<open>IndexError\<close>.\<close>

definition py_index :: "'a list \<Rightarrow> int \<Rightarrow> error + 'a" where
  "py_index xs i =
     (if 0 \<le> i \<and> i < int (length xs) then Inr (xs ! nat i)
      else if i < 0 \<and> - int (length xs) \<le> i then Inr (xs ! nat (int (length xs) + i))
      else Inl IndexError)"

text \<open>
  \<^verbatim>\<open>
  if not output:
      return None
  tests = output.strip('\n').split('\n')
  count = len(tests)
  test_index = 0
  if count > 1:
      numbered_list = ['%s: %s' % (i, t) for i, t in enumerate(tests)]
      print 'Multiple tests found:\n%s' % '\n'.join(numbered_list)
      test_index = int(raw_input('Please enter number of test to use:'))
  return tests[test_index]
  \<close>
  \<open>raw_input\<close> writes its prompt and takes the next line typed (\<open>EOFError\<close> when
  there is none). The function returns the console as it leaves it, and its result.
\<close>

definition numbered_list :: "string list \<Rightarrow> string list" where
  "numbered_list tests = map (\<lambda>(i, t). show_nat i @ '': '' @ t) (zip [0 ..< length tests] tests)"

definition listing :: "string list \<Rightarrow> string" where
  "listing tests = ''Multiple tests found:'' @ [newline] @ str_join [newline] (numbered_list tests)"

definition extract_test_path :: "string \<Rightarrow> console \<Rightarrow> console \<times> (error + string option)" where
  "extract_test_path output con =
     (if output = [] then (con, Inr None)
      else
        (let tests = split_str [newline] (strip_chars [newline] output);
             count = length tests
         in if count > 1
            then
              (let printed = listing tests;
                   con1 = con\<lparr>stdout := stdout con @ [printed, ''Please enter number of test to use:'']\<rparr>
               in (case stdin con1 of
                     [] \<Rightarrow> (con1, Inl EOFError)
                   | reply # later \<Rightarrow>
                       (let con2 = con1\<lparr>stdin := later\<rparr>
                        in (case py_int reply of
                              None \<Rightarrow> (con2, Inl ValueError)
                            | Some test_index \<Rightarrow> (con2, map_sum id Some (py_index tests test_index))))))
            else (con, map_sum id Some (py_index tests 0))))"

section \<open>\<open>is_equal_or_sub_dir\<close> and \<open>find_parent_module_dir\<close>\<close>

text \<open>
  \<^verbatim>\<open>
  parent_dir = os.path.realpath(parent_dir)
  sub_dir = os.path.realpath(sub_dir)
  if not os.path.isdir(sub_dir) or not os.path.isdir(parent_dir):
      return False
  return os.path.commonprefix([sub_dir, parent_dir]) == parent_dir
  \<close>
\<close>

definition is_equal_or_sub_dir :: "env \<Rightarrow> string \<Rightarrow> string \<Rightarrow> bool" where
  "is_equal_or_sub_dir e sub_dir0 parent_dir0 =
     (let parent_dir = realpath e parent_dir0;
          sub_dir = realpath e sub_dir0
      in if \<not> isdir e sub_dir \<or> \<not> isdir e parent_dir then False
         else commonprefix sub_dir parent_dir = parent_dir)"

text \<open>
  \<^verbatim>\<open>
  if not is_equal_or_sub_dir(start_dir, root_dir):
      raise ValueError('%s not in repo %s' % (start_dir, root_dir))
  current_dir = start_dir
  while current_dir != root_dir:
      if os.path.isfile(os.path.join(current_dir, file_to_locate)):
          return os.path.relpath(current_dir, root_dir)
      current_dir = os.path.dirname(current_dir)
  raise atest_error.TestWithNoModuleError(...)
  \<close>
  The \<open>while\<close> loop ends only when \<open>current_dir\<close> becomes the string \<open>root_dir\<close> or a
  marker file is found, so it is a partial function: \<open>None\<close> is the loop that never ends.
\<close>

partial_function (option) find_parent_module_dir_loop ::
  "env \<Rightarrow> string \<Rightarrow> string \<Rightarrow> string \<Rightarrow> (error + string) option" where
  "find_parent_module_dir_loop e root_dir file_to_locate current_dir =
     (if current_dir \<noteq> root_dir
      then (if isfile e (os_join current_dir file_to_locate)
            then Some (Inr (relpath e current_dir root_dir))
            else find_parent_module_dir_loop e root_dir file_to_locate (dirname current_dir))
      else Some (Inl TestWithNoModuleError))"

definition find_parent_module_dir :: "env \<Rightarrow> string \<Rightarrow> string \<Rightarrow> string \<Rightarrow> (error + string) option" where
  "find_parent_module_dir e root_dir start_dir file_to_locate =
     (if \<not> is_equal_or_sub_dir e start_dir root_dir then Some (Inl ValueError)
      else find_parent_module_dir_loop e root_dir file_to_locate start_dir)"


section \<open>\<open>get_targets_from_xml_root\<close>\<close>

text \<open>
  \<^verbatim>\<open>
  targets = set()
  option_tags = xml_root.findall('.//option')
  for tag in option_tags:
      target_to_add = None
      value = tag.attrib[_XML_VALUE].strip()
      if _APK_RE.match(value):
          target_to_add = value[:-len('.apk')]
      elif _PERF_SETUP_LABEL in value:
          targets.add(_PERF_SETUP_LABEL)
          continue
      if target_to_add and module_info.is_module(target_to_add):
          targets.add(target_to_add)
      elif target_to_add:
          logging.warning('Build target (%s) not present in module info, '
                          'skipping build', target_to_add)
  nodes_with_class = xml_root.findall(".//*[@class]")
  for class_attr in nodes_with_class:
      fqcn = class_attr.attrib['class'].strip()
      if fqcn.startswith(_COMPATIBILITY_PACKAGE_PREFIX):
          targets.add(_CTS_JAR)
  return targets
  \<close>
  The state of both loops is the target set together with the list of targets that
  \<open>logging.warning\<close> reported as skipped. \<open>target_to_add\<close> stays \<open>None\<close> unless
  the pattern matches, and then neither of the last two tests holds.
\<close>

type_synonym targets_state = "string set \<times> string list"

definition option_tag_step :: "(string \<Rightarrow> bool) \<Rightarrow> element \<Rightarrow> targets_state \<Rightarrow> error + targets_state" where
  "option_tag_step is_module tg st =
     (case get_attr tg XML_VALUE of
        Inl err \<Rightarrow> Inl err
      | Inr raw \<Rightarrow>
          (let value = strip raw
           in if rmatch APK_RE value \<noteq> None
              then (let target_to_add = take (length value - length ''.apk'') value
                    in if target_to_add \<noteq> [] \<and> is_module target_to_add
                       then Inr (insert target_to_add (fst st), snd st)
                       else if target_to_add \<noteq> [] then Inr (fst st, snd st @ [target_to_add])
                       else Inr st)
              else if contains value PERF_SETUP_LABEL
              then Inr (insert PERF_SETUP_LABEL (fst st), snd st)
              else Inr st))"

definition class_node_step :: "element \<Rightarrow> targets_state \<Rightarrow> error + targets_state" where
  "class_node_step class_attr st =
     (case get_attr class_attr ''class'' of
        Inl err \<Rightarrow> Inl err
      | Inr raw \<Rightarrow>
          (let fqcn = strip raw
           in if startswith fqcn COMPATIBILITY_PACKAGE_PREFIX
              then Inr (insert CTS_JAR (fst st), snd st)
              else Inr st))"

definition get_targets_from_xml_root :: "element \<Rightarrow> (string \<Rightarrow> bool) \<Rightarrow> error + targets_state" where
  "get_targets_from_xml_root xml_root is_module =
     (case for_each (option_tag_step is_module) (findall_option xml_root) ({}, []) of
        Inl err \<Rightarrow> Inl err
      | Inr st \<Rightarrow> for_each class_node_step (findall_with_class xml_root) st)"

text \<open>
  The specification's words for the values the first loop accepts, "a bare filename ending
  in .apk (no path separators)": longer than the suffix, without a slash, and ending in
  \<open>.apk\<close> in any letter case. \<open>apk_match_iff\<close> below compares it with what \<open>_APK_RE\<close>
  matches.
\<close>

fun apk_suffix :: "string \<Rightarrow> bool" where
  "apk_suffix [d, a, p, k] =
     (d = CHR ''.'' \<and> lower a = CHR ''a'' \<and> lower p = CHR ''p'' \<and> lower k = CHR ''k'')"
| "apk_suffix suf = False"

definition bare_apk_filename :: "string \<Rightarrow> bool" where
  "bare_apk_filename v =
     (4 < length v \<and> CHR ''/'' \<notin> set v \<and> apk_suffix (drop (length v - 4) v))"

text \<open>
  What the function returns, said without the loops. The targets of the option values
  are the names (the value without its last four characters) of the bare \<open>.apk\<close>
  filenames that the module lookup accepts, and the perf script when some value that is
  not such a filename contains its name. The skipped names are those of the bare
  \<open>.apk\<close> filenames that the lookup rejects, in document order. The \<open>class\<close> attributes
  give the compatibility harness when one of them starts with the compatibility prefix.
\<close>

definition apk_name :: "string \<Rightarrow> string" where
  "apk_name v = take (length v - 4) v"

definition option_targets :: "(string \<Rightarrow> bool) \<Rightarrow> string list \<Rightarrow> string set" where
  "option_targets is_module vs =
     set (map apk_name (filter (\<lambda>v. bare_apk_filename v \<and> is_module (apk_name v)) vs)) \<union>
     (if \<exists>v \<in> set vs. \<not> bare_apk_filename v \<and> contains v PERF_SETUP_LABEL
      then {PERF_SETUP_LABEL} else {})"

definition skipped_targets :: "(string \<Rightarrow> bool) \<Rightarrow> string list \<Rightarrow> string list" where
  "skipped_targets is_module vs =
     map apk_name (filter (\<lambda>v. bare_apk_filename v \<and> \<not> is_module (apk_name v)) vs)"

definition class_values :: "element \<Rightarrow> string list" where
  "class_values xml_root = List.map_filter (\<lambda>n. map_of (attrib n) ''class'') (subelements xml_root)"

definition class_targets :: "string list \<Rightarrow> string set" where
  "class_targets cs =
     (if \<exists>c \<in> set cs. startswith (strip c) COMPATIBILITY_PACKAGE_PREFIX then {CTS_JAR} else {})"

section \<open>\<open>_get_vts_push_group_targets\<close>\<close>

text \<open>
  \<^verbatim>\<open>
  targets = set()
  full_push_file_path = os.path.join(_VTS_PUSH_DIR, push_file)
  with open(full_push_file_path) as f:
      for line in f:
          target = line.strip()
          if not target:
              continue
          if target.endswith(_VTS_PUSH_SUFFIX):
              targets |= _get_vts_push_group_targets(line.strip(), rel_out_dir)
              continue
          sanitized_target = target.split(_VTS_PUSH_DELIM)[0]
          targets.add(os.path.join(rel_out_dir, sanitized_target))
  return targets
  \<close>
  The function calls itself for every nested push file and nothing bounds the nesting,
  so the model carries fuel: the number of nested calls it may still open. \<open>None\<close> says
  that the fuel did not suffice. \<open>push_file_lines\<close> is the \<open>for\<close> loop, with the
  recursive call as its first argument.
\<close>

fun push_file_lines ::
  "(string \<Rightarrow> (error + string set) option) \<Rightarrow> string \<Rightarrow> string list \<Rightarrow> string set
     \<Rightarrow> (error + string set) option" where
  "push_file_lines recurse rel_out_dir [] targets = Some (Inr targets)"
| "push_file_lines recurse rel_out_dir (line # rest) targets =
     (let target = strip line
      in if target = [] then push_file_lines recurse rel_out_dir rest targets
         else if endswith target VTS_PUSH_SUFFIX
         then (case recurse (strip line) of
                 None \<Rightarrow> None
               | Some (Inl err) \<Rightarrow> Some (Inl err)
               | Some (Inr nested) \<Rightarrow> push_file_lines recurse rel_out_dir rest (targets \<union> nested))
         else (let sanitized_target = hd (split_str VTS_PUSH_DELIM target)
               in push_file_lines recurse rel_out_dir rest
                    (insert (os_join rel_out_dir sanitized_target) targets)))"

fun get_vts_push_group_targets :: "nat \<Rightarrow> env \<Rightarrow> string \<Rightarrow> string \<Rightarrow> (error + string set) option" where
  "get_vts_push_group_targets 0 e push_file rel_out_dir = None"
| "get_vts_push_group_targets (Suc fuel) e push_file rel_out_dir =
     (let full_push_file_path = os_join (VTS_PUSH_DIR e) push_file
      in (case file_lines e full_push_file_path of
            None \<Rightarrow> Some (Inl IOError)
          | Some f \<Rightarrow>
              push_file_lines (\<lambda>nested_file. get_vts_push_group_targets fuel e nested_file rel_out_dir)
                rel_out_dir f {}))"

section \<open>\<open>_specified_bitness\<close>, \<open>_get_vts_binary_src_target\<close>, \<open>get_targets_from_vts_xml\<close>\<close>



text \<open>
  \<^verbatim>\<open>
  target = value
  match = _VTS_BINARY_SRC_DELIM_RE.match(value)
  if match:
      target = os.path.join(rel_out_dir, match.group('target'))
  elif _VTS_PUSH_DELIM in value:
      target = value.split(_VTS_PUSH_DELIM, 1)[0].strip()
      target = os.path.join(rel_out_dir, target)
  return target
  \<close>
  The first piece of \<open>value.split(d, 1)\<close> is the first piece of \<open>value.split(d)\<close>.
\<close>

definition get_vts_binary_src_target :: "string \<Rightarrow> string \<Rightarrow> string" where
  "get_vts_binary_src_target value rel_out_dir =
     (case rmatch VTS_BINARY_SRC_DELIM_RE value of
        Some target \<Rightarrow> os_join rel_out_dir target
      | None \<Rightarrow>
          if contains value VTS_PUSH_DELIM
          then os_join rel_out_dir (strip (hd (split_str VTS_PUSH_DELIM value)))
          else value)"







section \<open>Concrete inputs\<close>

text \<open>
  A source tree with \<open>/src/Baz.java\<close>, whose second line declares the package
  \<open>com.foo.bar\<close> and whose third line declares another one, and \<open>/src/Empty.java\<close>
  without a package line.
\<close>

definition baz_env :: env where
  "baz_env = \<lparr>isdir = (\<lambda>p. False), isfile = (\<lambda>p. p = ''/src/Baz.java''),
     realpath = (\<lambda>p. p), relpath = (\<lambda>p q. p),
     file_lines = (\<lambda>p. if p = ''/src/Baz.java''
                         then Some [''// header'' @ [newline], ''package com.foo.bar;'' @ [newline],
                                    ''package other.pkg;'' @ [newline]]
                         else if p = ''/src/Empty.java'' then Some [''class Empty {}'' @ [newline]]
                         else None),
     xml_files = (\<lambda>p. None), android_build_top = []\<rparr>"

text \<open>
  The same file with a blank before the semicolon of its package declaration, which Java
  allows.
\<close>

definition blank_env :: env where
  "blank_env = \<lparr>isdir = (\<lambda>p. False), isfile = (\<lambda>p. p = ''/src/Baz.java''),
     realpath = (\<lambda>p. p), relpath = (\<lambda>p q. p),
     file_lines = (\<lambda>p. if p = ''/src/Baz.java''
                         then Some [''// header'' @ [newline], ''package com.foo.bar ;'' @ [newline],
                                    ''public class Baz {}'' @ [newline]]
                         else None),
     xml_files = (\<lambda>p. None), android_build_top = []\<rparr>"

text \<open>
  A configuration with the single option \<open>value="foo.apk"\<close>, and one whose only option
  has no \<open>value\<close> attribute.
\<close>

definition foo_doc :: element where
  "foo_doc = Element ''configuration'' []
     [Element ''option'' [(''name'', ''test-file-name''), (''value'', ''foo.apk'')] []]"

definition no_value_doc :: element where
  "no_value_doc = Element ''configuration'' [] [Element ''option'' [(''name'', ''apk'')] []]"

text \<open>
  A configuration with two \<open>.apk\<close> options (the second padded with blanks and in upper
  case, below an element whose class is in the compatibility package) and an option that
  mentions the perf script.
\<close>

definition two_apk_doc :: element where
  "two_apk_doc = Element ''configuration'' []
     [Element ''option'' [(''name'', ''test-file-name''), (''value'', ''foo.apk'')] [],
      Element ''test'' [(''class'', ''com.android.compatibility.common.tradefed.testtype.JarHostTest'')]
        [Element ''option'' [(''name'', ''test-file-name''), (''value'', '' Bar.APK '')] [],
         Element ''option'' [(''name'', ''script''), (''value'', ''run perf-setup.sh now'')] []]]"






definition sibling_env :: env where
  "sibling_env = \<lparr>isdir = (\<lambda>p. p \<in> set [''/'', ''/r'', ''/r/a'', ''/r/ab'']),
     isfile = (\<lambda>p. False), realpath = (\<lambda>p. p),
     relpath = (\<lambda>p q. p), file_lines = (\<lambda>p. None),
     xml_files = (\<lambda>p. None), android_build_top = ''/r/a''\<rparr>"


text \<open>
  Two sets of push-group manifests under the push directory of the build top \<open>/src\<close>:
  one where \<open>a.push\<close> names itself, and one where \<open>a.push\<close> names \<open>b.push\<close>, holds a
  blank line and one artifact, and \<open>b.push\<close> holds two artifacts, one of them the same.
\<close>

definition push_dir :: string where
  "push_dir = ''/src/test/vts/tools/vts-tradefed/res/push_groups''"

definition cyclic_env :: env where
  "cyclic_env = \<lparr>isdir = (\<lambda>p. False), isfile = (\<lambda>p. False), realpath = (\<lambda>p. p),
     relpath = (\<lambda>p q. p),
     file_lines = (\<lambda>p. if p = push_dir @ ''/a.push'' then Some [''a.push'' @ [newline]] else None),
     xml_files = (\<lambda>p. None), android_build_top = ''/src''\<rparr>"

definition acyclic_env :: env where
  "acyclic_env = \<lparr>isdir = (\<lambda>p. False), isfile = (\<lambda>p. False), realpath = (\<lambda>p. p),
     relpath = (\<lambda>p q. p),
     file_lines = (\<lambda>p. if p = push_dir @ ''/a.push''
                         then Some [''b.push'' @ [newline], [newline],
                                    ''DATA/lib/x.so->/data/x.so'' @ [newline]]
                         else if p = push_dir @ ''/b.push''
                         then Some [''DATA/bin/y->/data/y'' @ [newline],
                                    ''DATA/lib/x.so->/data/x.so'' @ [newline]]
                         else None),
     xml_files = (\<lambda>p. None), android_build_top = ''/src''\<rparr>"

section \<open>Facts about splitting\<close>

lemma split_str_Nil: "split_str sep [] = [[]]"
  by (subst split_str.simps) (auto simp: startswith_def)

lemma split_str_not_Nil: "split_str sep s \<noteq> []"
  by (induction sep s rule: split_str.induct)
     (subst split_str.simps, simp split: list.splits)

lemma split_str_Cons:
  "split_str sep (c # cs) =
     (if sep \<noteq> [] \<and> startswith (c # cs) sep then [] # split_str sep (drop (length sep) (c # cs))
      else (c # hd (split_str sep cs)) # tl (split_str sep cs))"
proof -
  obtain p ps where "split_str sep cs = p # ps"
    using split_str_not_Nil [of sep cs] by (cases "split_str sep cs") auto
  then show ?thesis
    by (subst split_str.simps) auto
qed

lemma split_str_single_hit: "split_str [d] (d # s) = [] # split_str [d] s"
  by (simp add: split_str_Cons startswith_def)

lemma split_str_single_miss:
  "c \<noteq> d \<Longrightarrow> split_str [d] (c # s) = (c # hd (split_str [d] s)) # tl (split_str [d] s)"
  by (simp add: split_str_Cons startswith_def)

lemma split_str_absent: "d \<notin> set s \<Longrightarrow> split_str [d] s = [s]"
  by (induction s) (auto simp: split_str_Nil split_str_single_miss)

lemma split_str_append:
  "split_str [d] (a @ d # b) = split_str [d] a @ split_str [d] b"
proof (induction a)
  case Nil
  show ?case by (simp add: split_str_single_hit split_str_Nil)
next
  case (Cons c a)
  show ?case
  proof (cases "c = d")
    case True
    with Cons show ?thesis by (simp add: split_str_single_hit)
  next
    case False
    with Cons split_str_not_Nil [of "[d]" a] show ?thesis
      by (simp add: split_str_single_miss)
  qed
qed

lemma length_split_str: "length (split_str [d] s) = Suc (count_list s d)"
proof (induction s)
  case Nil
  show ?case by (simp add: split_str_Nil)
next
  case (Cons c s)
  show ?case
  proof (cases "c = d")
    case True
    with Cons show ?thesis by (simp add: split_str_single_hit)
  next
    case False
    have "length (split_str [d] (c # s)) = length (split_str [d] s)"
      using split_str_not_Nil [of "[d]" s] False
      by (simp add: split_str_single_miss)
    with Cons False show ?thesis by simp
  qed
qed

lemma split_str_pieces: "p \<in> set (split_str [d] s) \<Longrightarrow> d \<notin> set p"
proof (induction s arbitrary: p)
  case Nil
  then show ?case by (simp add: split_str_Nil)
next
  case (Cons c s)
  obtain q qs where eq: "split_str [d] s = q # qs"
    using split_str_not_Nil [of "[d]" s] by (cases "split_str [d] s") auto
  show ?case
  proof (cases "c = d")
    case True
    with Cons show ?thesis by (auto simp: split_str_single_hit)
  next
    case False
    with Cons.prems eq have "p = c # q \<or> p \<in> set qs"
      by (simp add: split_str_single_miss)
    with Cons.IH eq False show ?thesis by auto
  qed
qed

lemma str_join_split_str: "str_join [d] (split_str [d] s) = s"
proof (induction s)
  case Nil
  show ?case by (simp add: split_str_Nil)
next
  case (Cons c s)
  obtain q qs where eq: "split_str [d] s = q # qs"
    using split_str_not_Nil [of "[d]" s] by (cases "split_str [d] s") auto
  show ?case
  proof (cases "c = d")
    case True
    with Cons eq show ?thesis by (simp add: split_str_single_hit)
  next
    case False
    with Cons eq show ?thesis by (cases qs) (simp_all add: split_str_single_miss)
  qed
qed

lemma split_str_eval:
  "split_str sep (c # cs) =
     (if sep \<noteq> [] \<and> startswith (c # cs) sep then [] # split_str sep (drop (length sep) (c # cs))
      else (case split_str sep cs of [] \<Rightarrow> [[c]] | p # ps \<Rightarrow> (c # p) # ps))"
  by (subst split_str.simps) simp

lemma hd_split_str_first:
  assumes "sep \<noteq> []" and "contains v sep"
  shows "\<exists>l r. v = l @ sep @ r \<and> (\<forall>i < length l. \<not> startswith (drop i v) sep) \<and>
               hd (split_str sep v) = l"
  using assms(2)
proof (induction v)
  case Nil
  with assms(1) show ?case by simp
next
  case (Cons c cs)
  show ?case
  proof (cases "startswith (c # cs) sep")
    case True
    then have "c # cs = [] @ sep @ drop (length sep) (c # cs)"
      unfolding startswith_def by (metis append_Nil append_take_drop_id)
    moreover from True assms(1) have "hd (split_str sep (c # cs)) = []"
      by (simp add: split_str_Cons)
    ultimately show ?thesis
      by (metis length_0_conv less_nat_zero_code list.size(3))
  next
    case False
    with Cons.prems have "contains cs sep" by simp
    from Cons.IH [OF this] obtain l r where cs: "cs = l @ sep @ r"
      and first: "\<forall>i < length l. \<not> startswith (drop i cs) sep"
      and hd: "hd (split_str sep cs) = l" by blast
    from False hd have "hd (split_str sep (c # cs)) = c # l"
      by (simp add: split_str_Cons)
    moreover from cs have "c # cs = (c # l) @ sep @ r" by simp
    moreover have "\<forall>i < length (c # l). \<not> startswith (drop i (c # cs)) sep"
    proof (intro allI impI)
      fix i assume "i < length (c # l)"
      then show "\<not> startswith (drop i (c # cs)) sep"
        using False first by (cases i) auto
    qed
    ultimately show ?thesis by blast
  qed
qed

lemma count_one_decompose:
  assumes "count_list s d = 1"
  shows "\<exists>l r. s = l @ d # r \<and> d \<notin> set l \<and> d \<notin> set r"
proof -
  from assms have "d \<in> set s" by (metis count_list_0_iff zero_neq_one)
  then obtain l r where s: "s = l @ d # r" and l: "d \<notin> set l"
    by (meson split_list_first)
  from assms s l have "count_list r d = 0" by (simp add: count_list_0_iff)
  then have "d \<notin> set r" by (simp add: count_list_0_iff)
  with s l show ?thesis by blast
qed

lemma split_methods_one:
  assumes "CHR ''#'' \<notin> set l" and "CHR ''#'' \<notin> set r"
  shows "split_methods (l @ ''#'' @ r) = Inr (l, set (split_str '','' r))"
proof -
  from assms have "split_str ''#'' (l @ ''#'' @ r) = [l, r]"
    by (simp add: split_str_append split_str_absent)
  then show ?thesis by (simp add: split_methods_def)
qed

section \<open>Claims about \<open>split_methods\<close>\<close>

text \<open>
  Claim C5. \<open>split_methods\<close> decides by the number of \<open>#\<close> in its input. With none, it
  returns the input and the empty method set. With exactly one, the input is
  \<open>l # r\<close> with no \<open>#\<close> in \<open>l\<close> or \<open>r\<close>, and it returns \<open>l\<close> with the set of the
  pieces of \<open>r\<close> between commas. With more than one, it fails with
  \<open>TooManyMethodsError\<close>. The pieces between commas are what one expects:
  \<open>split_str_pieces\<close> and \<open>str_join_split_str\<close> above say that no piece holds a comma
  and that the pieces joined by commas give \<open>r\<close> back.
\<close>

theorem split_methods_by_delimiter_count:
  "(CHR ''#'' \<notin> set s \<longrightarrow> split_methods s = Inr (s, {})) \<and>
   (count_list s (CHR ''#'') = 1 \<longrightarrow>
      (\<exists>l r. s = l @ ''#'' @ r \<and> CHR ''#'' \<notin> set l \<and> CHR ''#'' \<notin> set r)) \<and>
   (CHR ''#'' \<notin> set l \<and> CHR ''#'' \<notin> set r \<longrightarrow>
      split_methods (l @ ''#'' @ r) = Inr (l, set (split_str '','' r))) \<and>
   (1 < count_list s (CHR ''#'') \<longrightarrow> split_methods s = Inl TooManyMethodsError)"
proof (intro conjI impI)
  assume "CHR ''#'' \<notin> set s"
  then show "split_methods s = Inr (s, {})"
    by (simp add: split_methods_def split_str_absent)
next
  assume "count_list s (CHR ''#'') = 1"
  then show "\<exists>l r. s = l @ ''#'' @ r \<and> CHR ''#'' \<notin> set l \<and> CHR ''#'' \<notin> set r"
    using count_one_decompose [of s "CHR ''#''"] by simp
next
  assume "CHR ''#'' \<notin> set l \<and> CHR ''#'' \<notin> set r"
  then show "split_methods (l @ ''#'' @ r) = Inr (l, set (split_str '','' r))"
    using split_methods_one [of l r] by blast
next
  assume "1 < count_list s (CHR ''#'')"
  then have "3 \<le> length (split_str ''#'' s)"
    by (simp add: length_split_str)
  then obtain a b c ps where "split_str ''#'' s = a # b # c # ps"
    by (auto simp: numeral_3_eq_3 Suc_le_length_iff)
  then show "split_methods s = Inl TooManyMethodsError"
    by (simp add: split_methods_def)
qed

text \<open>The three examples of the specification, each obtained from the theorem.\<close>

theorem split_methods_by_delimiter_count_witness:
  "split_methods ''Foo'' = Inr (''Foo'', {}) \<and>
   split_methods ''Foo#a,b'' = Inr (''Foo'', {''a'', ''b''}) \<and>
   split_methods ''a#b#c'' = Inl TooManyMethodsError"
proof -
  have zero: "CHR ''#'' \<notin> set ''Foo''" by simp
  have one: "CHR ''#'' \<notin> set ''Foo'' \<and> CHR ''#'' \<notin> set ''a,b''" by simp
  have many: "1 < count_list ''a#b#c'' (CHR ''#'')" by simp
  have commas: "split_str '','' ''a,b'' = [''a'', ''b'']"
    by (simp add: split_str_Cons split_str_Nil startswith_def)
  from zero split_methods_by_delimiter_count [of "''Foo''"]
  have "split_methods ''Foo'' = Inr (''Foo'', {})" by blast
  moreover from one split_methods_by_delimiter_count [of _ "''Foo''" "''a,b''"]
  have "split_methods (''Foo'' @ ''#'' @ ''a,b'') = Inr (''Foo'', set (split_str '','' ''a,b''))"
    by blast
  moreover from many split_methods_by_delimiter_count [of "''a#b#c''"]
  have "split_methods ''a#b#c'' = Inl TooManyMethodsError" by blast
  ultimately show ?thesis by (simp add: commas insert_commute)
qed

text \<open>
  Claim C9, as stated, fails: an input that ends with \<open>#\<close> and holds another \<open>#\<close>
  before it is rejected, not split.
\<close>

theorem split_methods_trailing_delimiter_counterexample:
  "endswith ''a#b#'' ''#'' \<and> split_methods ''a#b#'' = Inl TooManyMethodsError"
  by (simp add: endswith_def split_methods_def split_str_Cons split_str_Nil startswith_def)

text \<open>
  Claim C9, amended. For an input whose only \<open>#\<close> is its last character,
  \<open>split_methods\<close> succeeds and the method set is the set holding the empty string. More
  generally, when the input holds exactly one \<open>#\<close> and the method list after it ends
  with a comma or holds two commas in a row, the call succeeds and the empty string is a
  member of the method set.
\<close>

theorem split_methods_trailing_delimiter:
  assumes "CHR ''#'' \<notin> set l"
  shows "split_methods (l @ ''#'') = Inr (l, {[]}) \<and>
         (CHR ''#'' \<notin> set m \<and> (m = a @ '','' \<or> m = a @ '',,'' @ b) \<longrightarrow>
            (\<exists>M. split_methods (l @ ''#'' @ m) = Inr (l, M) \<and> [] \<in> M))"
proof (intro conjI impI)
  from assms split_methods_one [of l "[]"]
  show "split_methods (l @ ''#'') = Inr (l, {[]})"
    by (simp add: split_str_Nil)
next
  assume m: "CHR ''#'' \<notin> set m \<and> (m = a @ '','' \<or> m = a @ '',,'' @ b)"
  then have "[] \<in> set (split_str '','' m)"
    by (auto simp: split_str_append split_str_Nil split_str_single_hit)
  moreover from assms m have "split_methods (l @ ''#'' @ m) = Inr (l, set (split_str '','' m))"
    using split_methods_one [of l m] by blast
  ultimately show "\<exists>M. split_methods (l @ ''#'' @ m) = Inr (l, M) \<and> [] \<in> M"
    by blast
qed

theorem split_methods_trailing_delimiter_witness:
  "split_methods ''Foo#'' = Inr (''Foo'', {[]}) \<and>
   (\<exists>M. split_methods ''Foo#a,,b'' = Inr (''Foo'', M) \<and> [] \<in> M) \<and>
   (\<exists>M. split_methods ''Foo#a,'' = Inr (''Foo'', M) \<and> [] \<in> M)"
proof -
  have l: "CHR ''#'' \<notin> set ''Foo''" by simp
  have m1: "CHR ''#'' \<notin> set ''a,,b'' \<and> (''a,,b'' = ''a'' @ '','' \<or> ''a,,b'' = ''a'' @ '',,'' @ ''b'')"
    by simp
  have m2: "CHR ''#'' \<notin> set ''a,'' \<and> (''a,'' = ''a'' @ '','' \<or> ''a,'' = ''a'' @ '',,'' @ ''b'')"
    by simp
  from split_methods_trailing_delimiter [OF l, of "''a,,b''" "''a''" "''b''"] m1
  have "split_methods (''Foo'' @ ''#'') = Inr (''Foo'', {[]})"
    and "\<exists>M. split_methods (''Foo'' @ ''#'' @ ''a,,b'') = Inr (''Foo'', M) \<and> [] \<in> M"
    by blast+
  moreover from split_methods_trailing_delimiter [OF l, of "''a,''" "''a''" "''b''"] m2
  have "\<exists>M. split_methods (''Foo'' @ ''#'' @ ''a,'') = Inr (''Foo'', M) \<and> [] \<in> M"
    by blast
  ultimately show ?thesis by simp
qed

section \<open>Facts about the patterns and about paths\<close>

lemma rmatch_star_run:
  assumes "\<forall>c \<in> set a. cmatch k c"
    and "rmatch r s = Some x"
    and "s = [] \<or> \<not> cmatch k (hd s)"
  shows "rmatch (Cls k Star g # r) (a @ s) = Some (if g then a @ x else x)"
  using assms
proof (induction a)
  case Nil
  then show ?case by (cases s) auto
next
  case (Cons c a)
  then show ?case by (simp add: cap_def)
qed

lemma rmatch_plus_run:
  assumes "a \<noteq> []" and "\<forall>c \<in> set a. cmatch k c"
    and "rmatch r s = Some x"
    and "s = [] \<or> \<not> cmatch k (hd s)"
  shows "rmatch (Cls k Plus g # r) (a @ s) = Some (if g then a @ x else x)"
proof -
  from assms(1) obtain c a' where a: "a = c # a'" by (cases a) auto
  with assms(2) have "\<forall>c \<in> set a'. cmatch k c" and "cmatch k c" by auto
  with rmatch_star_run [OF _ assms(3,4), of a' g] a show ?thesis
    by (simp add: cap_def)
qed

lemma rmatch_star_last: "rmatch [Cls k Star False] s = Some []"
  by (induction s) (auto simp: cap_def)

lemma lower_package [simp]:
  "lower (CHR ''p'') = CHR ''p''" "lower (CHR ''a'') = CHR ''a''" "lower (CHR ''c'') = CHR ''c''"
  "lower (CHR ''k'') = CHR ''k''" "lower (CHR ''g'') = CHR ''g''" "lower (CHR ''e'') = CHR ''e''"
  by (simp_all add: lower_def)

lemma package_line_match:
  assumes ws: "\<forall>c \<in> set ws. isspace c"
    and sp: "sp \<noteq> []" "\<forall>c \<in> set sp. isspace c"
    and g: "g \<noteq> []" "\<not> isspace (hd g)" "CHR '';'' \<notin> set g"
  shows "rmatch PACKAGE_RE (ws @ ''package'' @ sp @ g @ '';'' @ rest) = Some g"
proof -
  let ?tail = "[Cls Space Star False, Cls (Lit (CHR '';'')) One False, Cls Space Star False]"
  let ?grp = "Cls (Not (CHR '';'')) Plus True # ?tail"
  let ?sep = "Cls Space Plus False # ?grp"
  have t: "rmatch ?tail ('';'' @ rest) = Some []"
    by (simp add: isspace_def rmatch_star_last cap_def)
  have "rmatch ?grp (g @ '';'' @ rest) = Some (if True then g @ [] else [])"
    by (rule rmatch_plus_run [OF g(1) _ t]) (use g in auto)
  then have grp: "rmatch ?grp (g @ '';'' @ rest) = Some g" by simp
  have "rmatch ?sep (sp @ g @ '';'' @ rest) = Some (if False then sp @ g else g)"
    by (rule rmatch_plus_run [OF sp(1) _ grp]) (use sp g in \<open>auto simp: hd_append\<close>)
  then have sep: "rmatch ?sep (sp @ g @ '';'' @ rest) = Some g" by simp
  have kw: "rmatch ([Cls (LitI (CHR ''p'')) One False, Cls (LitI (CHR ''a'')) One False,
                 Cls (LitI (CHR ''c'')) One False, Cls (LitI (CHR ''k'')) One False,
                 Cls (LitI (CHR ''a'')) One False, Cls (LitI (CHR ''g'')) One False,
                 Cls (LitI (CHR ''e'')) One False] @ ?sep) (''package'' @ sp @ g @ '';'' @ rest) = Some g"
    using sep by (simp add: cap_def)
  have "rmatch (Cls Space Star False # [Cls (LitI (CHR ''p'')) One False, Cls (LitI (CHR ''a'')) One False,
                 Cls (LitI (CHR ''c'')) One False, Cls (LitI (CHR ''k'')) One False,
                 Cls (LitI (CHR ''a'')) One False, Cls (LitI (CHR ''g'')) One False,
                 Cls (LitI (CHR ''e'')) One False] @ ?sep) (ws @ ''package'' @ sp @ g @ '';'' @ rest)
        = Some (if False then ws @ g else g)"
    by (rule rmatch_star_run [OF _ kw]) (use ws in \<open>auto simp: isspace_def\<close>)
  then show ?thesis by (simp add: PACKAGE_RE_def)
qed

lemma takeWhile_until: "x \<notin> set a \<Longrightarrow> takeWhile (\<lambda>c. c \<noteq> x) (a @ x # b) = a"
  by (induction a) auto

lemma class_name_of_path:
  assumes "CHR ''/'' \<notin> set name" "\<exists>c \<in> set name. c \<noteq> CHR ''.''"
    and "CHR ''/'' \<notin> set ext" "CHR ''.'' \<notin> set ext"
  shows "fst (splitext (snd (os_split (d @ ''/'' @ name @ ''.'' @ ext)))) = name"
proof -
  have "takeWhile (\<lambda>c. c \<noteq> CHR ''/'') ((rev ext @ ''.'' @ rev name) @ CHR ''/'' # rev d)
          = rev ext @ ''.'' @ rev name"
    by (rule takeWhile_until) (use assms in auto)
  then have tail: "snd (os_split (d @ ''/'' @ name @ ''.'' @ ext)) = name @ ''.'' @ ext"
    by (simp add: os_split_def Let_def)
  have e: "takeWhile (\<lambda>c. c \<noteq> CHR ''.'') (rev ext @ CHR ''.'' # rev name) = rev ext"
    by (rule takeWhile_until) (use assms in auto)
  have n: "takeWhile (\<lambda>c. c \<noteq> CHR ''/'') (rev name) = rev name"
    by (rule takeWhile_eq_all_conv [THEN iffD2]) (use assms in auto)
  have e': "takeWhile (\<lambda>c. c \<noteq> CHR ''.'') (rev (name @ ''.'' @ ext)) = rev ext"
    using e by simp
  have root: "take (length (name @ ''.'' @ ext) - length (rev (rev ext)) - 1) (name @ ''.'' @ ext) = name"
    by simp
  have "splitext (name @ ''.'' @ ext) = (name, drop (length name) (name @ ''.'' @ ext))"
    unfolding splitext_def Let_def e' root rev_rev_ident
    using assms by (simp add: n)
  then show ?thesis
    unfolding tail by simp
qed

lemma scan_class_file_first_match:
  assumes "\<forall>l \<in> set before. rmatch PACKAGE_RE l = None"
    and "rmatch PACKAGE_RE line = Some package"
  shows "scan_class_file test_path (before @ line # after) =
           Inr (package @ ''.'' @ fst (splitext (snd (os_split test_path))))"
  using assms by (induction before) simp_all

lemma scan_class_file_no_match:
  assumes "\<forall>l \<in> set class_file. rmatch PACKAGE_RE l = None"
  shows "scan_class_file test_path class_file = Inl (MissingPackageNameError test_path)"
  using assms by (induction class_file) simp_all

section \<open>Claim about \<open>get_fully_qualified_class_name\<close>\<close>

text \<open>
  \<open>get_fully_qualified_class_name\<close> reads the lines of the file in order. When some line
  matches the package pattern and no line before it does, the result is the text of the
  pattern's group on that line, a dot, and the base name of \<open>test_path\<close> without its
  extension, whatever the lines after it are. When no line of the file matches, it raises
  \<open>MissingPackageNameError\<close>.
\<close>

lemma get_fully_qualified_class_name_scan:
  "(file_lines e test_path = Some (before @ line # after) \<and>
    (\<forall>l \<in> set before. rmatch PACKAGE_RE l = None) \<and>
    rmatch PACKAGE_RE line = Some package \<longrightarrow>
      get_fully_qualified_class_name e test_path =
        Inr (package @ ''.'' @ fst (splitext (snd (os_split test_path))))) \<and>
   (file_lines e test_path = Some class_file \<and>
    (\<forall>l \<in> set class_file. rmatch PACKAGE_RE l = None) \<longrightarrow>
      get_fully_qualified_class_name e test_path = Inl (MissingPackageNameError test_path))"
proof (intro conjI impI)
  assume a: "file_lines e test_path = Some (before @ line # after) \<and>
    (\<forall>l \<in> set before. rmatch PACKAGE_RE l = None) \<and>
    rmatch PACKAGE_RE line = Some package"
  then have "scan_class_file test_path (before @ line # after) =
      Inr (package @ ''.'' @ fst (splitext (snd (os_split test_path))))"
    by (simp add: scan_class_file_first_match)
  with a show "get_fully_qualified_class_name e test_path =
        Inr (package @ ''.'' @ fst (splitext (snd (os_split test_path))))"
    by (simp add: get_fully_qualified_class_name_def)
next
  assume a: "file_lines e test_path = Some class_file \<and>
    (\<forall>l \<in> set class_file. rmatch PACKAGE_RE l = None)"
  then have "scan_class_file test_path class_file = Inl (MissingPackageNameError test_path)"
    by (simp add: scan_class_file_no_match)
  with a show "get_fully_qualified_class_name e test_path = Inl (MissingPackageNameError test_path)"
    by (simp add: get_fully_qualified_class_name_def)
qed

text \<open>
  On \<open>Baz.java\<close> the result is \<open>com.foo.bar.Baz\<close>: the line after the first package
  line is not looked at. On the file without a package line the error is raised.
\<close>

lemma get_fully_qualified_class_name_baz:
  "get_fully_qualified_class_name baz_env ''/src/Baz.java'' = Inr ''com.foo.bar.Baz'' \<and>
   get_fully_qualified_class_name baz_env ''/src/Empty.java'' = Inl (MissingPackageNameError ''/src/Empty.java'')"
proof -
  have pk: "rmatch PACKAGE_RE ([] @ ''package'' @ '' '' @ ''com.foo.bar'' @ '';'' @ [newline]) = Some ''com.foo.bar''"
    by (rule package_line_match) (simp_all add: isspace_def)
  have cls: "fst (splitext (snd (os_split (''/src'' @ ''/'' @ ''Baz'' @ ''.'' @ ''java'')))) = ''Baz''"
    by (rule class_name_of_path) simp_all
  have no1: "rmatch PACKAGE_RE (''// header'' @ [newline]) = None"
    by (simp add: PACKAGE_RE_def isspace_def lower_def)
  have no2: "rmatch PACKAGE_RE (''class Empty {}'' @ [newline]) = None"
    by (simp add: PACKAGE_RE_def isspace_def lower_def)
  have h1: "file_lines baz_env ''/src/Baz.java'' =
              Some ([''// header'' @ [newline]] @ (''package com.foo.bar;'' @ [newline]) # [''package other.pkg;'' @ [newline]]) \<and>
            (\<forall>l \<in> set [''// header'' @ [newline]]. rmatch PACKAGE_RE l = None) \<and>
            rmatch PACKAGE_RE (''package com.foo.bar;'' @ [newline]) = Some ''com.foo.bar''"
    using pk no1 by (simp add: baz_env_def)
  have h2: "file_lines baz_env ''/src/Empty.java'' = Some [''class Empty {}'' @ [newline]] \<and>
            (\<forall>l \<in> set [''class Empty {}'' @ [newline]]. rmatch PACKAGE_RE l = None)"
    using no2 by (simp add: baz_env_def)
  have r1: "get_fully_qualified_class_name baz_env ''/src/Baz.java'' =
          Inr (''com.foo.bar'' @ ''.'' @ fst (splitext (snd (os_split ''/src/Baz.java''))))"
    by (rule get_fully_qualified_class_name_scan [THEN conjunct1, rule_format, OF h1])
  have r2: "get_fully_qualified_class_name baz_env ''/src/Empty.java'' = Inl (MissingPackageNameError ''/src/Empty.java'')"
    by (rule get_fully_qualified_class_name_scan [THEN conjunct2, rule_format, OF h2])
  from cls have cls': "fst (splitext (snd (os_split ''/src/Baz.java''))) = ''Baz''" by simp
  show ?thesis unfolding r1 r2 cls' by simp
qed

text \<open>
  Claim C7. The function is documented to return the fully qualified class name, and the
  comment of the package pattern says that its group matches \<open>foo.bar\<close> on the line
  \<open>package foo.bar;\<close>: the declared dotted package, as the claim has it. The pattern does
  not do that. Its group \<open>[^;]+\<close> is greedy and takes every character up to the
  semicolon, so the run of blanks that the pattern allows between the group and the
  semicolon is always empty. On a file \<open>Baz.java\<close> whose package line is \<open>package com.foo.bar ;\<close>
  the group is \<open>com.foo.bar\<close> followed by a blank, and the function returns
  \<open>com.foo.bar .Baz\<close>, with a blank inside, instead of \<open>com.foo.bar.Baz\<close>.
\<close>

theorem get_fully_qualified_class_name_blank_before_semicolon:
  "rmatch PACKAGE_RE (''package com.foo.bar ;'' @ [newline]) = Some ''com.foo.bar '' \<and>
   get_fully_qualified_class_name blank_env ''/src/Baz.java'' = Inr ''com.foo.bar .Baz''"
proof -
  have pk: "rmatch PACKAGE_RE ([] @ ''package'' @ '' '' @ ''com.foo.bar '' @ '';'' @ [newline]) = Some ''com.foo.bar ''"
    by (rule package_line_match) (simp_all add: isspace_def)
  then have pk': "rmatch PACKAGE_RE (''package com.foo.bar ;'' @ [newline]) = Some ''com.foo.bar ''"
    by simp
  have cls: "fst (splitext (snd (os_split (''/src'' @ ''/'' @ ''Baz'' @ ''.'' @ ''java'')))) = ''Baz''"
    by (rule class_name_of_path) simp_all
  then have cls': "fst (splitext (snd (os_split ''/src/Baz.java''))) = ''Baz''" by simp
  have no1: "rmatch PACKAGE_RE (''// header'' @ [newline]) = None"
    by (simp add: PACKAGE_RE_def isspace_def lower_def)
  have "scan_class_file ''/src/Baz.java''
          ([''// header'' @ [newline]] @ (''package com.foo.bar ;'' @ [newline]) # [''public class Baz {}'' @ [newline]]) =
        Inr (''com.foo.bar '' @ ''.'' @ fst (splitext (snd (os_split ''/src/Baz.java''))))"
    using no1 pk' by (intro scan_class_file_first_match) simp_all
  then have "get_fully_qualified_class_name blank_env ''/src/Baz.java'' = Inr ''com.foo.bar .Baz''"
    unfolding cls' by (simp add: get_fully_qualified_class_name_def blank_env_def)
  with pk' show ?thesis by simp
qed

section \<open>Claim about \<open>_get_vts_binary_src_target\<close>\<close>

lemma rmatch_dot_group_end:
  "rmatch [Cls Dot Star True, Eos] s = Some t \<Longrightarrow> s = t \<or> s = t @ [newline]"
proof (induction s arbitrary: t)
  case Nil
  then show ?case by simp
next
  case (Cons c cs)
  show ?case
  proof (cases "c = newline")
    case True
    with Cons.prems show ?thesis by (auto split: if_splits)
  next
    case False
    with Cons.prems obtain x where x: "rmatch [Cls Dot Star True, Eos] cs = Some x" and t: "t = c # x"
      by (auto simp: cap_def split: option.splits if_splits)
    from Cons.IH [OF x] t show ?thesis by auto
  qed
qed

lemma rmatch_dot_group_end_total:
  "newline \<notin> set s \<Longrightarrow> rmatch [Cls Dot Star True, Eos] s = Some s"
  by (induction s) (auto simp: cap_def)

lemma rmatch_delim_tail:
  assumes "rmatch [Cls (Lit (CHR '':'')) One False, Cls (Lit (CHR '':'')) One False, Cls Dot Star True, Eos] s = Some t"
  shows "s = ''::'' @ t \<or> s = ''::'' @ t @ [newline]"
proof -
  from assms obtain s' where s: "s = ''::'' @ s'"
    and m: "rmatch [Cls Dot Star True, Eos] s' = Some t"
    by (cases s; cases "tl s") (auto simp: cap_def split: if_splits)
  from rmatch_dot_group_end [OF m] s show ?thesis by auto
qed

lemma rmatch_delim_tail_total:
  assumes "newline \<notin> set s"
  shows "rmatch [Cls (Lit (CHR '':'')) One False, Cls (Lit (CHR '':'')) One False, Cls Dot Star True, Eos] s
           = (if startswith s ''::'' then Some (drop 2 s) else None)"
proof (cases s)
  case Nil
  then show ?thesis by (simp add: startswith_def)
next
  case (Cons a s1)
  show ?thesis
  proof (cases s1)
    case Nil
    with Cons show ?thesis by (simp add: startswith_def)
  next
    case (Cons b s2)
    with \<open>s = a # s1\<close> assms show ?thesis
      by (simp add: startswith_def cap_def rmatch_dot_group_end_total)
  qed
qed

lemma vts_delim_match_shape:
  "rmatch VTS_BINARY_SRC_DELIM_RE v = Some t \<Longrightarrow>
     \<exists>p. v = p @ ''::'' @ t \<or> v = p @ ''::'' @ t @ [newline]"
proof (induction v)
  case Nil
  then show ?case by (simp add: VTS_BINARY_SRC_DELIM_RE_def)
next
  case (Cons c cs)
  let ?tl = "[Cls (Lit (CHR '':'')) One False, Cls (Lit (CHR '':'')) One False, Cls Dot Star True, Eos]"
  from Cons.prems
  have "rmatch VTS_BINARY_SRC_DELIM_RE cs = Some t \<or> rmatch ?tl (c # cs) = Some t"
    by (auto simp: VTS_BINARY_SRC_DELIM_RE_def cap_def split: if_splits option.splits)
  then show ?case
  proof
    assume "rmatch VTS_BINARY_SRC_DELIM_RE cs = Some t"
    from Cons.IH [OF this] obtain p where "cs = p @ ''::'' @ t \<or> cs = p @ ''::'' @ t @ [newline]"
      by blast
    then have "c # cs = (c # p) @ ''::'' @ t \<or> c # cs = (c # p) @ ''::'' @ t @ [newline]"
      by auto
    then show ?thesis by blast
  next
    assume "rmatch ?tl (c # cs) = Some t"
    from rmatch_delim_tail [OF this]
    have "c # cs = [] @ ''::'' @ t \<or> c # cs = [] @ ''::'' @ t @ [newline]" by simp
    then show ?thesis by blast
  qed
qed

lemma vts_delim_match_iff:
  "newline \<notin> set v \<Longrightarrow> (rmatch VTS_BINARY_SRC_DELIM_RE v \<noteq> None) = contains v ''::''"
proof (induction v)
  case Nil
  then show ?case by (simp add: VTS_BINARY_SRC_DELIM_RE_def)
next
  case (Cons c cs)
  let ?tl = "[Cls (Lit (CHR '':'')) One False, Cls (Lit (CHR '':'')) One False, Cls Dot Star True, Eos]"
  from Cons.prems have c: "c \<noteq> newline" and cs: "newline \<notin> set cs" by auto
  have tl: "(rmatch ?tl (c # cs) \<noteq> None) = startswith (c # cs) ''::''"
    using rmatch_delim_tail_total [OF Cons.prems] by simp
  have "(rmatch VTS_BINARY_SRC_DELIM_RE (c # cs) \<noteq> None) =
          (rmatch VTS_BINARY_SRC_DELIM_RE cs \<noteq> None \<or> rmatch ?tl (c # cs) \<noteq> None)"
    using c by (auto simp: VTS_BINARY_SRC_DELIM_RE_def cap_def split: option.splits)
  with Cons.IH [OF cs] tl show ?case by auto
qed

lemma vts_delim_match_last:
  "newline \<notin> set v \<Longrightarrow> rmatch VTS_BINARY_SRC_DELIM_RE v = Some t \<Longrightarrow> \<not> contains ('':'' @ t) ''::''"
proof (induction v)
  case Nil
  then show ?case by (simp add: VTS_BINARY_SRC_DELIM_RE_def)
next
  case (Cons c cs)
  let ?tl = "[Cls (Lit (CHR '':'')) One False, Cls (Lit (CHR '':'')) One False, Cls Dot Star True, Eos]"
  from Cons.prems have c: "c \<noteq> newline" and cs: "newline \<notin> set cs" by auto
  show ?case
  proof (cases "rmatch VTS_BINARY_SRC_DELIM_RE cs")
    case (Some x)
    with Cons.prems c have "x = t"
      by (simp add: VTS_BINARY_SRC_DELIM_RE_def cap_def)
    with Some Cons.IH [OF cs] show ?thesis by simp
  next
    case None
    with Cons.prems c have m: "rmatch ?tl (c # cs) = Some t"
      by (simp add: VTS_BINARY_SRC_DELIM_RE_def cap_def)
    from m rmatch_delim_tail_total [OF Cons.prems(1)]
    have "startswith (c # cs) ''::''" and "t = drop 2 (c # cs)"
      by (auto split: if_splits)
    then have "cs = '':'' @ t"
      by (cases cs) (auto simp: startswith_def)
    moreover from None vts_delim_match_iff [OF cs] have "\<not> contains cs ''::''" by simp
    ultimately show ?thesis by simp
  qed
qed

text \<open>
  Claim C8, as stated, fails in its second case: the code strips the part before \<open>->\<close>
  before joining it, so for \<open>a ->b\<close> the result is \<open>out/a\<close> and not \<open>out\<close> joined with
  the part before the delimiter, which is \<open>out/a \<close> with a trailing blank.
\<close>

theorem get_vts_binary_src_target_literal_counterexample:
  "rmatch VTS_BINARY_SRC_DELIM_RE ''a ->b'' = None \<and> contains ''a ->b'' ''->'' \<and>
   hd (split_str ''->'' ''a ->b'') = ''a '' \<and>
   get_vts_binary_src_target ''a ->b'' ''out'' = ''out/a'' \<and>
   os_join ''out'' (hd (split_str ''->'' ''a ->b'')) = ''out/a ''"
  by (simp add: get_vts_binary_src_target_def VTS_BINARY_SRC_DELIM_RE_def VTS_PUSH_DELIM_def
        newline_def cap_def startswith_def endswith_def os_join_def split_str_eval split_str_Nil
        strip_def lstrip_def rstrip_def isspace_def)

text \<open>
  Claim C8, amended. \<open>_get_vts_binary_src_target(v, rel_out_dir)\<close> tries in order:
  (i) if \<open>v\<close> matches the pattern \<open>.*::(?P<target>.*)$\<close>, the result is \<open>rel_out_dir\<close>
  joined with the group, and the group is what follows a \<open>::\<close> in \<open>v\<close> (up to a final
  newline); (ii) else if \<open>v\<close> contains \<open>->\<close>, the result is \<open>rel_out_dir\<close> joined with
  the part of \<open>v\<close> before the first \<open>->\<close>, stripped of surrounding whitespace;
  (iii) otherwise the result is \<open>v\<close> itself, without \<open>rel_out_dir\<close>. For a value without
  newline the pattern matches exactly when \<open>v\<close> contains \<open>::\<close>, and the group then
  follows the last \<open>::\<close>.
\<close>

theorem get_vts_binary_src_target_cases:
  "(rmatch VTS_BINARY_SRC_DELIM_RE v = Some t \<longrightarrow>
      get_vts_binary_src_target v rel_out_dir = os_join rel_out_dir t \<and>
      (\<exists>p. v = p @ ''::'' @ t \<or> v = p @ ''::'' @ t @ [newline])) \<and>
   (rmatch VTS_BINARY_SRC_DELIM_RE v = None \<and> contains v ''->'' \<longrightarrow>
      get_vts_binary_src_target v rel_out_dir =
        os_join rel_out_dir (strip (hd (split_str ''->'' v))) \<and>
      (\<exists>l r. v = l @ ''->'' @ r \<and> (\<forall>i < length l. \<not> startswith (drop i v) ''->'') \<and>
             hd (split_str ''->'' v) = l)) \<and>
   (rmatch VTS_BINARY_SRC_DELIM_RE v = None \<and> \<not> contains v ''->'' \<longrightarrow>
      get_vts_binary_src_target v rel_out_dir = v) \<and>
   (newline \<notin> set v \<longrightarrow>
      (rmatch VTS_BINARY_SRC_DELIM_RE v \<noteq> None) = contains v ''::'' \<and>
      (rmatch VTS_BINARY_SRC_DELIM_RE v = Some t \<longrightarrow> \<not> contains ('':'' @ t) ''::''))"
proof (intro conjI impI)
  assume m: "rmatch VTS_BINARY_SRC_DELIM_RE v = Some t"
  then show "get_vts_binary_src_target v rel_out_dir = os_join rel_out_dir t"
    by (simp add: get_vts_binary_src_target_def)
  from m show "\<exists>p. v = p @ ''::'' @ t \<or> v = p @ ''::'' @ t @ [newline]"
    by (rule vts_delim_match_shape)
next
  assume a: "rmatch VTS_BINARY_SRC_DELIM_RE v = None \<and> contains v ''->''"
  then show "get_vts_binary_src_target v rel_out_dir =
        os_join rel_out_dir (strip (hd (split_str ''->'' v)))"
    by (simp add: get_vts_binary_src_target_def VTS_PUSH_DELIM_def)
  from a have "contains v ''->''" by simp
  then show "\<exists>l r. v = l @ ''->'' @ r \<and> (\<forall>i < length l. \<not> startswith (drop i v) ''->'') \<and>
             hd (split_str ''->'' v) = l"
    by (intro hd_split_str_first) simp_all
next
  assume "rmatch VTS_BINARY_SRC_DELIM_RE v = None \<and> \<not> contains v ''->''"
  then show "get_vts_binary_src_target v rel_out_dir = v"
    by (simp add: get_vts_binary_src_target_def VTS_PUSH_DELIM_def)
next
  assume "newline \<notin> set v"
  then show "(rmatch VTS_BINARY_SRC_DELIM_RE v \<noteq> None) = contains v ''::''"
    by (rule vts_delim_match_iff)
next
  assume "newline \<notin> set v" and "rmatch VTS_BINARY_SRC_DELIM_RE v = Some t"
  then show "\<not> contains ('':'' @ t) ''::''"
    by (rule vts_delim_match_last)
qed

text \<open>The three forms named in the docstring of the function.\<close>

theorem get_vts_binary_src_target_cases_witness:
  "get_vts_binary_src_target ''_32bit::DATA/target'' ''out'' = ''out/DATA/target'' \<and>
   get_vts_binary_src_target ''DATA/target ->/data/target'' ''out'' = ''out/DATA/target'' \<and>
   get_vts_binary_src_target ''out/host/linux-x86/bin/Foo'' ''top'' = ''out/host/linux-x86/bin/Foo''"
proof -
  have h1: "rmatch VTS_BINARY_SRC_DELIM_RE ''_32bit::DATA/target'' = Some ''DATA/target''"
    by (simp add: VTS_BINARY_SRC_DELIM_RE_def newline_def cap_def)
  have h2: "rmatch VTS_BINARY_SRC_DELIM_RE ''DATA/target ->/data/target'' = None \<and>
            contains ''DATA/target ->/data/target'' ''->''"
    by (simp add: VTS_BINARY_SRC_DELIM_RE_def newline_def cap_def startswith_def)
  have h3: "rmatch VTS_BINARY_SRC_DELIM_RE ''out/host/linux-x86/bin/Foo'' = None \<and>
            \<not> contains ''out/host/linux-x86/bin/Foo'' ''->''"
    by (simp add: VTS_BINARY_SRC_DELIM_RE_def newline_def cap_def startswith_def)
  have left: "strip (hd (split_str ''->'' ''DATA/target ->/data/target'')) = ''DATA/target''"
    by (simp add: split_str_eval split_str_Nil startswith_def strip_def lstrip_def rstrip_def isspace_def)
  have r1: "get_vts_binary_src_target ''_32bit::DATA/target'' ''out'' = os_join ''out'' ''DATA/target''"
    using get_vts_binary_src_target_cases [THEN conjunct1, rule_format, OF h1] by blast
  have r2: "get_vts_binary_src_target ''DATA/target ->/data/target'' ''out'' =
              os_join ''out'' (strip (hd (split_str ''->'' ''DATA/target ->/data/target'')))"
    using get_vts_binary_src_target_cases [THEN conjunct2, THEN conjunct1, rule_format, OF h2] by blast
  have r3: "get_vts_binary_src_target ''out/host/linux-x86/bin/Foo'' ''top'' = ''out/host/linux-x86/bin/Foo''"
    by (rule get_vts_binary_src_target_cases [THEN conjunct2, THEN conjunct2, THEN conjunct1, rule_format, OF h3])
  show ?thesis
    unfolding r1 r2 r3 left by (simp add: os_join_def startswith_def endswith_def)
qed

section \<open>Claim about \<open>extract_test_path\<close>\<close>

lemma dropWhile_keeps: "x \<in> set xs \<Longrightarrow> \<not> P x \<Longrightarrow> x \<in> set (dropWhile P xs)"
  by (induction xs) auto

lemma strip_keeps: "c \<in> set s \<Longrightarrow> \<not> isspace c \<Longrightarrow> c \<in> set (strip s)"
  by (simp add: strip_def lstrip_def rstrip_def dropWhile_keeps)

lemma py_int_non_numeric:
  assumes "c \<in> set reply" and "\<not> isdigit c" and "\<not> isspace c"
    and "c \<noteq> CHR ''-''" and "c \<noteq> CHR ''+''"
  shows "py_int reply = None"
proof -
  let ?t = "strip reply"
  let ?ds = "if ?t \<noteq> [] \<and> (hd ?t = CHR ''-'' \<or> hd ?t = CHR ''+'') then lstrip (tl ?t) else ?t"
  from assms have t: "c \<in> set ?t" by (simp add: strip_keeps)
  have "c \<in> set ?ds"
  proof (cases "?t \<noteq> [] \<and> (hd ?t = CHR ''-'' \<or> hd ?t = CHR ''+'')")
    case True
    with t assms(4,5) have "c \<in> set (tl ?t)" by (cases ?t) auto
    with assms(3) True show ?thesis by (simp add: lstrip_def dropWhile_keeps)
  next
    case False
    with t show ?thesis by auto
  qed
  with assms(2) have "\<not> (\<forall>c \<in> set ?ds. isdigit c)" by blast
  then show ?thesis by (simp add: py_int_def Let_def)
qed

lemma py_index_cases:
  "py_index xs i =
     (if - int (length xs) \<le> i \<and> i < int (length xs)
      then Inr (xs ! nat (i mod int (length xs))) else Inl IndexError)"
proof (cases "0 \<le> i")
  case True
  then show ?thesis by (auto simp: py_index_def)
next
  case False
  then have neg: "i < 0" by simp
  show ?thesis
  proof (cases "- int (length xs) \<le> i")
    case True
    with neg have "i mod int (length xs) = int (length xs) + i"
      by (smt (verit) mod_add_self1 mod_pos_pos_trivial)
    with True neg show ?thesis by (simp add: py_index_def)
  next
    case False
    with neg show ?thesis by (simp add: py_index_def)
  qed
qed

text \<open>
  Claim C2, as stated, fails: nothing in \<open>extract_test_path\<close> retries. With two
  candidates and the replies \<open>x\<close>, \<open>0\<close> waiting, the call ends with \<open>ValueError\<close> after
  reading the first reply only; with the reply \<open>2\<close> it ends with \<open>IndexError\<close>. Both
  are exceptions that leave the function.
\<close>

theorem extract_test_path_no_retry_counterexample:
  "snd (extract_test_path (''a'' @ [newline] @ ''b'' @ [newline]) \<lparr>stdin = [''x'', ''0''], stdout = []\<rparr>)
     = Inl ValueError \<and>
   stdin (fst (extract_test_path (''a'' @ [newline] @ ''b'' @ [newline]) \<lparr>stdin = [''x'', ''0''], stdout = []\<rparr>))
     = [''0''] \<and>
   snd (extract_test_path (''a'' @ [newline] @ ''b'' @ [newline]) \<lparr>stdin = [''2'', ''0''], stdout = []\<rparr>)
     = Inl IndexError"
  by (simp add: extract_test_path_def Let_def newline_def strip_chars_def rstrip_chars_def
        split_str_eval split_str_Nil startswith_def py_int_def py_index_def strip_def lstrip_def
        rstrip_def isspace_def isdigit_def)

text \<open>
  Claim C2, amended. With empty output the function returns \<open>None\<close>, and with exactly
  one candidate it returns that path; in both cases the console is untouched. With two or
  more candidates it writes the numbered list and the prompt and reads exactly one reply.
  A reply that \<open>int\<close> does not accept raises \<open>ValueError\<close>; an integer \<open>i\<close> with
  \<open>-count \<le> i < count\<close> selects candidate \<open>i mod count\<close> (a negative index counts from
  the end); any other integer raises \<open>IndexError\<close>. No reply is asked for a second time.
  A reply holding a character that is neither a digit, a sign nor whitespace is one that
  \<open>int\<close> does not accept.
\<close>

theorem extract_test_path_selection:
  assumes tests: "tests = split_str [newline] (strip_chars [newline] output)"
  shows "(output = [] \<longrightarrow> extract_test_path output con = (con, Inr None)) \<and>
         (output \<noteq> [] \<and> length tests = 1 \<longrightarrow>
            extract_test_path output con = (con, Inr (Some (hd tests)))) \<and>
         (output \<noteq> [] \<and> 1 < length tests \<and> stdin con = reply # later \<longrightarrow>
            fst (extract_test_path output con) =
              con\<lparr>stdout := stdout con @ [listing tests, ''Please enter number of test to use:''],
                  stdin := later\<rparr> \<and>
            snd (extract_test_path output con) =
              (case py_int reply of
                 None \<Rightarrow> Inl ValueError
               | Some i \<Rightarrow>
                   if - int (length tests) \<le> i \<and> i < int (length tests)
                   then Inr (Some (tests ! nat (i mod int (length tests))))
                   else Inl IndexError)) \<and>
         ((\<exists>c \<in> set reply. \<not> isdigit c \<and> \<not> isspace c \<and> c \<noteq> CHR ''-'' \<and> c \<noteq> CHR ''+'') \<longrightarrow>
            py_int reply = None)"
proof (intro conjI impI)
  assume "output = []"
  then show "extract_test_path output con = (con, Inr None)"
    by (simp add: extract_test_path_def)
next
  assume a: "output \<noteq> [] \<and> length tests = 1"
  then obtain t where t: "tests = [t]" by (cases tests) auto
  with tests have e: "split_str [newline] (strip_chars [newline] output) = [t]" by simp
  from a show "extract_test_path output con = (con, Inr (Some (hd tests)))"
    unfolding t by (simp add: extract_test_path_def Let_def py_index_def e)
next
  assume a: "output \<noteq> [] \<and> 1 < length tests \<and> stdin con = reply # later"
  with tests show "fst (extract_test_path output con) =
      con\<lparr>stdout := stdout con @ [listing tests, ''Please enter number of test to use:''],
          stdin := later\<rparr>"
    by (simp add: extract_test_path_def Let_def listing_def split: option.splits)
next
  assume a: "output \<noteq> [] \<and> 1 < length tests \<and> stdin con = reply # later"
  with tests show "snd (extract_test_path output con) =
      (case py_int reply of
         None \<Rightarrow> Inl ValueError
       | Some i \<Rightarrow>
           if - int (length tests) \<le> i \<and> i < int (length tests)
           then Inr (Some (tests ! nat (i mod int (length tests))))
           else Inl IndexError)"
    by (simp add: extract_test_path_def Let_def py_index_cases split: option.splits)
next
  assume "\<exists>c \<in> set reply. \<not> isdigit c \<and> \<not> isspace c \<and> c \<noteq> CHR ''-'' \<and> c \<noteq> CHR ''+''"
  then show "py_int reply = None"
    using py_int_non_numeric by blast
qed


theorem extract_test_path_selection_witness:
  "extract_test_path [] \<lparr>stdin = [''1''], stdout = []\<rparr> = (\<lparr>stdin = [''1''], stdout = []\<rparr>, Inr None) \<and>
   extract_test_path (''/p/A.java'' @ [newline]) \<lparr>stdin = [''1''], stdout = []\<rparr>
     = (\<lparr>stdin = [''1''], stdout = []\<rparr>, Inr (Some ''/p/A.java'')) \<and>
   fst (extract_test_path (''a'' @ [newline] @ ''b'' @ [newline]) \<lparr>stdin = [''1'', ''0''], stdout = []\<rparr>)
     = \<lparr>stdin = [''0''],
        stdout = [''Multiple tests found:'' @ [newline] @ ''0: a'' @ [newline] @ ''1: b'',
                  ''Please enter number of test to use:'']\<rparr> \<and>
   snd (extract_test_path (''a'' @ [newline] @ ''b'' @ [newline]) \<lparr>stdin = [''1'', ''0''], stdout = []\<rparr>)
     = Inr (Some ''b'') \<and>
   py_int ''b'' = None"
proof -
  let ?con = "\<lparr>stdin = [''1''], stdout = []\<rparr>"
  let ?con2 = "\<lparr>stdin = [''1'', ''0''], stdout = []\<rparr>"
  have one: "[''/p/A.java''] = split_str [newline] (strip_chars [newline] (''/p/A.java'' @ [newline]))"
    by (simp add: newline_def strip_chars_def rstrip_chars_def split_str_eval split_str_Nil startswith_def)
  have two: "[''a'', ''b''] = split_str [newline] (strip_chars [newline] (''a'' @ [newline] @ ''b'' @ [newline]))"
    by (simp add: newline_def strip_chars_def rstrip_chars_def split_str_eval split_str_Nil startswith_def)
  have int1: "py_int ''1'' = Some 1"
    by (simp add: py_int_def strip_def lstrip_def rstrip_def isspace_def isdigit_def)
  have lst: "listing [''a'', ''b''] = ''Multiple tests found:'' @ [newline] @ ''0: a'' @ [newline] @ ''1: b''"
    by (simp add: listing_def numbered_list_def show_nat.simps upt_rec)
  have zero: "[[]] = split_str [newline] (strip_chars [newline] [])"
    by (simp add: strip_chars_def rstrip_chars_def split_str_Nil)
  have r0: "extract_test_path [] ?con = (?con, Inr None)"
    using extract_test_path_selection [OF zero, of ?con] by blast
  have r1: "extract_test_path (''/p/A.java'' @ [newline]) ?con = (?con, Inr (Some (hd [''/p/A.java''])))"
    using extract_test_path_selection [OF one, of ?con] by simp
  have h2: "''a'' @ [newline] @ ''b'' @ [newline] \<noteq> [] \<and> 1 < length [''a'', ''b''] \<and> stdin ?con2 = ''1'' # [''0'']"
    by simp
  note r2 = extract_test_path_selection [OF two, of ?con2 "''1''" "[''0'']", THEN conjunct2, THEN conjunct2,
      THEN conjunct1, rule_format, OF h2]
  have nn: "\<exists>c \<in> set ''b''. \<not> isdigit c \<and> \<not> isspace c \<and> c \<noteq> CHR ''-'' \<and> c \<noteq> CHR ''+''"
    by (simp add: isdigit_def isspace_def)
  have r3: "py_int ''b'' = None"
    by (rule extract_test_path_selection [OF two, of _ "''b''", THEN conjunct2, THEN conjunct2,
      THEN conjunct2, rule_format, OF nn])
  show ?thesis
    using r0 r1 r2 r3 by (simp add: int1 lst)
qed

section \<open>Claim about \<open>get_targets_from_xml_root\<close>\<close>

lemma rmatch_star_iff:
  "(rmatch (Cls k Star g # r) s \<noteq> None) =
     (\<exists>x y. s = x @ y \<and> (\<forall>c \<in> set x. cmatch k c) \<and> rmatch r y \<noteq> None)"
proof (induction s)
  case Nil
  show ?case by simp
next
  case (Cons c cs)
  show ?case
  proof
    assume m: "rmatch (Cls k Star g # r) (c # cs) \<noteq> None"
    show "\<exists>x y. c # cs = x @ y \<and> (\<forall>c \<in> set x. cmatch k c) \<and> rmatch r y \<noteq> None"
    proof (cases "cmatch k c \<and> rmatch (Cls k Star g # r) cs \<noteq> None")
      case True
      with Cons.IH obtain x y where "cs = x @ y" "\<forall>c \<in> set x. cmatch k c" "rmatch r y \<noteq> None"
        by blast
      with True have "c # cs = (c # x) @ y \<and> (\<forall>d \<in> set (c # x). cmatch k d) \<and> rmatch r y \<noteq> None"
        by simp
      then show ?thesis by blast
    next
      case False
      with m have "rmatch r (c # cs) \<noteq> None"
        by (auto split: if_splits option.splits)
      then have "c # cs = [] @ (c # cs) \<and> (\<forall>d \<in> set []. cmatch k d) \<and> rmatch r (c # cs) \<noteq> None"
        by simp
      then show ?thesis by blast
    qed
  next
    assume "\<exists>x y. c # cs = x @ y \<and> (\<forall>c \<in> set x. cmatch k c) \<and> rmatch r y \<noteq> None"
    then obtain x y where s: "c # cs = x @ y" and x: "\<forall>c \<in> set x. cmatch k c"
      and y: "rmatch r y \<noteq> None" by blast
    show "rmatch (Cls k Star g # r) (c # cs) \<noteq> None"
    proof (cases x)
      case Nil
      with s y show ?thesis by (auto split: option.splits)
    next
      case (Cons d x')
      with s x y have "cmatch k c" and "cs = x' @ y \<and> (\<forall>c \<in> set x'. cmatch k c) \<and> rmatch r y \<noteq> None"
        by auto
      with Cons.IH have "cmatch k c" and "rmatch (Cls k Star g # r) cs \<noteq> None" by blast+
      then show ?thesis by (auto split: option.splits)
    qed
  qed
qed

lemma rmatch_plus_iff:
  "(rmatch (Cls k Plus g # r) s \<noteq> None) =
     (\<exists>x y. s = x @ y \<and> x \<noteq> [] \<and> (\<forall>c \<in> set x. cmatch k c) \<and> rmatch r y \<noteq> None)"
proof (cases s)
  case Nil
  then show ?thesis by simp
next
  case (Cons c cs)
  have "(rmatch (Cls k Plus g # r) (c # cs) \<noteq> None) =
          (cmatch k c \<and> rmatch (Cls k Star g # r) cs \<noteq> None)"
    by simp
  also have "\<dots> = (cmatch k c \<and> (\<exists>x y. cs = x @ y \<and> (\<forall>c \<in> set x. cmatch k c) \<and> rmatch r y \<noteq> None))"
    by (simp only: rmatch_star_iff)
  also have "\<dots> = (\<exists>x y. c # cs = x @ y \<and> x \<noteq> [] \<and> (\<forall>c \<in> set x. cmatch k c) \<and> rmatch r y \<noteq> None)"
  proof
    assume "cmatch k c \<and> (\<exists>x y. cs = x @ y \<and> (\<forall>c \<in> set x. cmatch k c) \<and> rmatch r y \<noteq> None)"
    then obtain x y where "cmatch k c" "cs = x @ y" "\<forall>c \<in> set x. cmatch k c" "rmatch r y \<noteq> None"
      by blast
    then have "c # cs = (c # x) @ y \<and> c # x \<noteq> [] \<and> (\<forall>d \<in> set (c # x). cmatch k d) \<and> rmatch r y \<noteq> None"
      by simp
    then show "\<exists>x y. c # cs = x @ y \<and> x \<noteq> [] \<and> (\<forall>c \<in> set x. cmatch k c) \<and> rmatch r y \<noteq> None"
      by blast
  next
    assume "\<exists>x y. c # cs = x @ y \<and> x \<noteq> [] \<and> (\<forall>c \<in> set x. cmatch k c) \<and> rmatch r y \<noteq> None"
    then obtain x y where s: "c # cs = x @ y" and "x \<noteq> []" and x: "\<forall>c \<in> set x. cmatch k c"
      and y: "rmatch r y \<noteq> None" by blast
    then obtain x' where "x = c # x'" by (cases x) auto
    with s x y show "cmatch k c \<and> (\<exists>x y. cs = x @ y \<and> (\<forall>c \<in> set x. cmatch k c) \<and> rmatch r y \<noteq> None)"
      by auto
  qed
  finally show ?thesis using Cons by simp
qed

lemma lower_slash [simp]: "lower (CHR ''/'') = CHR ''/''"
  by (simp add: lower_def)

lemma apk_suffix_iff:
  "apk_suffix suf =
     (\<exists>a p k. suf = [CHR ''.'', a, p, k] \<and> lower a = CHR ''a'' \<and> lower p = CHR ''p'' \<and> lower k = CHR ''k'')"
  by (cases suf rule: apk_suffix.cases) auto

lemma apk_tail_iff:
  "(rmatch [Cls (Lit (CHR ''.'')) One False, Cls (LitI (CHR ''a'')) One False,
            Cls (LitI (CHR ''p'')) One False, Cls (LitI (CHR ''k'')) One False, Eos] y \<noteq> None) =
     (\<exists>suf. apk_suffix suf \<and> (y = suf \<or> y = suf @ [newline]))"
proof
  assume m: "rmatch [Cls (Lit (CHR ''.'')) One False, Cls (LitI (CHR ''a'')) One False,
            Cls (LitI (CHR ''p'')) One False, Cls (LitI (CHR ''k'')) One False, Eos] y \<noteq> None"
  then obtain d y1 where y: "y = d # y1" by (cases y) auto
  with m obtain a y2 where y1: "y1 = a # y2" by (cases y1) (auto split: if_splits)
  with m y obtain p y3 where y2: "y2 = p # y3" by (cases y2) (auto split: if_splits)
  with m y y1 obtain k y4 where y3: "y3 = k # y4" by (cases y3) (auto split: if_splits)
  from m y y1 y2 y3 have "apk_suffix [d, a, p, k]" and "y4 = [] \<or> y4 = [newline]"
    by (auto split: if_splits)
  with y y1 y2 y3 have "apk_suffix [d, a, p, k] \<and> (y = [d, a, p, k] \<or> y = [d, a, p, k] @ [newline])"
    by auto
  then show "\<exists>suf. apk_suffix suf \<and> (y = suf \<or> y = suf @ [newline])" by blast
next
  assume "\<exists>suf. apk_suffix suf \<and> (y = suf \<or> y = suf @ [newline])"
  then show "rmatch [Cls (Lit (CHR ''.'')) One False, Cls (LitI (CHR ''a'')) One False,
            Cls (LitI (CHR ''p'')) One False, Cls (LitI (CHR ''k'')) One False, Eos] y \<noteq> None"
    by (auto simp: apk_suffix_iff cap_def)
qed

lemma apk_suffix_no_slash: "apk_suffix suf \<Longrightarrow> CHR ''/'' \<notin> set suf \<and> length suf = 4"
  by (auto simp: apk_suffix_iff)

lemma apk_suffix_no_newline: "apk_suffix suf \<Longrightarrow> last suf \<noteq> newline"
  by (auto simp: apk_suffix_iff newline_def lower_def)

lemma apk_match_iff:
  assumes "v = [] \<or> last v \<noteq> newline"
  shows "(rmatch APK_RE v \<noteq> None) = bare_apk_filename v"
proof
  assume "rmatch APK_RE v \<noteq> None"
  then obtain x y where v: "v = x @ y" and x: "x \<noteq> []" "\<forall>c \<in> set x. c \<noteq> CHR ''/''"
    and y: "rmatch [Cls (Lit (CHR ''.'')) One False, Cls (LitI (CHR ''a'')) One False,
            Cls (LitI (CHR ''p'')) One False, Cls (LitI (CHR ''k'')) One False, Eos] y \<noteq> None"
    unfolding APK_RE_def rmatch_plus_iff by auto
  from y obtain suf where suf: "apk_suffix suf" and "y = suf \<or> y = suf @ [newline]"
    unfolding apk_tail_iff by blast
  with assms v have ys: "y = suf" by auto
  from suf have "CHR ''/'' \<notin> set suf" and "length suf = 4"
    using apk_suffix_no_slash by blast+
  with v x ys suf show "bare_apk_filename v"
    by (auto simp: bare_apk_filename_def)
next
  assume b: "bare_apk_filename v"
  let ?x = "take (length v - 4) v" and ?suf = "drop (length v - 4) v"
  from b have "v = ?x @ ?suf" "?x \<noteq> []" "\<forall>c \<in> set ?x. cmatch (Not (CHR ''/'')) c" "apk_suffix ?suf"
    by (auto simp: bare_apk_filename_def dest: in_set_takeD)
  moreover from \<open>apk_suffix ?suf\<close>
  have "rmatch [Cls (Lit (CHR ''.'')) One False, Cls (LitI (CHR ''a'')) One False,
            Cls (LitI (CHR ''p'')) One False, Cls (LitI (CHR ''k'')) One False, Eos] ?suf \<noteq> None"
    unfolding apk_tail_iff by blast
  ultimately show "rmatch APK_RE v \<noteq> None"
    unfolding APK_RE_def rmatch_plus_iff by blast
qed

lemma strip_last: "strip s = [] \<or> \<not> isspace (last (strip s))"
proof (cases "strip s = []")
  case True
  then show ?thesis by simp
next
  case False
  let ?r = "dropWhile isspace (rev s)"
  have st: "strip s = dropWhile isspace (rev ?r)"
    by (simp add: strip_def lstrip_def rstrip_def)
  have r: "?r \<noteq> []"
  proof
    assume "?r = []"
    with st have "strip s = []" by simp
    with False show False by simp
  qed
  then have "\<not> isspace (hd ?r)" by (rule hd_dropWhile)
  moreover have "last (strip s) = last (rev ?r)"
    using False unfolding strip_def lstrip_def rstrip_def
    by (metis append_Nil2 last_appendR takeWhile_dropWhile_id)
  ultimately show ?thesis using r by (simp add: last_rev)
qed

lemma strip_apk_match_iff: "(rmatch APK_RE (strip raw) \<noteq> None) = bare_apk_filename (strip raw)"
proof (rule apk_match_iff)
  from strip_last [of raw] show "strip raw = [] \<or> last (strip raw) \<noteq> newline"
    by (auto simp: isspace_def newline_def)
qed


lemma option_tag_step_cases:
  assumes "get_attr tg XML_VALUE = Inr raw"
  shows "option_tag_step is_module tg st =
           Inr (if bare_apk_filename (strip raw)
                then (if is_module (apk_name (strip raw))
                      then (insert (apk_name (strip raw)) (fst st), snd st)
                      else (fst st, snd st @ [apk_name (strip raw)]))
                else if contains (strip raw) PERF_SETUP_LABEL
                then (insert PERF_SETUP_LABEL (fst st), snd st)
                else st)"
proof (cases "bare_apk_filename (strip raw)")
  case True
  then have m: "rmatch APK_RE (strip raw) \<noteq> None"
    using strip_apk_match_iff [of raw] by blast
  from True have ne: "take (length (strip raw) - 4) (strip raw) \<noteq> []"
    by (auto simp: bare_apk_filename_def)
  have l4: "length ''.apk'' = 4" by simp
  show ?thesis
    using assms m ne True unfolding option_tag_step_def Let_def l4 apk_name_def by simp
next
  case False
  then have m: "rmatch APK_RE (strip raw) = None"
    using strip_apk_match_iff [of raw] by blast
  show ?thesis
    using assms m False unfolding option_tag_step_def Let_def by simp
qed

lemma for_each_option_tags:
  assumes "map (\<lambda>tg. get_attr tg XML_VALUE) tags = map Inr raws"
  shows "for_each (option_tag_step is_module) tags (T, W) =
           Inr (T \<union> option_targets is_module (map strip raws),
                W @ skipped_targets is_module (map strip raws))"
  using assms
proof (induction tags arbitrary: raws T W)
  case Nil
  then show ?case by (simp add: option_targets_def skipped_targets_def)
next
  case (Cons tg tags)
  then obtain raw rest where raws: "raws = raw # rest" and raw: "get_attr tg XML_VALUE = Inr raw"
    and rest: "map (\<lambda>tg. get_attr tg XML_VALUE) tags = map Inr rest"
    by (cases raws) auto
  show ?case
    unfolding raws
    by (simp add: option_tag_step_cases [OF raw] Cons.IH [OF rest])
       (auto simp: option_targets_def skipped_targets_def)
qed

lemma for_each_class_nodes:
  assumes "\<forall>n \<in> set nodes. map_of (attrib n) ''class'' \<noteq> None"
  shows "for_each class_node_step nodes (T, W) =
           Inr (T \<union> class_targets (List.map_filter (\<lambda>n. map_of (attrib n) ''class'') nodes), W)"
  using assms
proof (induction nodes arbitrary: T)
  case Nil
  show ?case by (simp add: class_targets_def List.map_filter_simps)
next
  case (Cons n nodes)
  then obtain c where c: "map_of (attrib n) ''class'' = Some c" by auto
  from Cons have ih: "\<And>T. for_each class_node_step nodes (T, W) =
           Inr (T \<union> class_targets (List.map_filter (\<lambda>n. map_of (attrib n) ''class'') nodes), W)"
    by simp
  have step: "class_node_step n (T, W) =
      Inr (if startswith (strip c) COMPATIBILITY_PACKAGE_PREFIX then (insert CTS_JAR T, W) else (T, W))"
    by (simp add: class_node_step_def get_attr_def c Let_def)
  show ?case
    by (simp add: step ih c List.map_filter_simps) (auto simp: class_targets_def)
qed

lemma class_values_findall:
  "List.map_filter (\<lambda>n. map_of (attrib n) ''class'') (findall_with_class xml_root) = class_values xml_root"
  by (simp add: class_values_def findall_with_class_def List.map_filter_def)

lemma get_targets_from_xml_root_eq:
  assumes "map (\<lambda>tg. get_attr tg XML_VALUE) (findall_option xml_root) = map Inr raws"
  shows "get_targets_from_xml_root xml_root is_module =
           Inr (option_targets is_module (map strip raws) \<union> class_targets (class_values xml_root),
                skipped_targets is_module (map strip raws))"
proof -
  have cl: "\<forall>n \<in> set (findall_with_class xml_root). map_of (attrib n) ''class'' \<noteq> None"
    by (simp add: findall_with_class_def)
  show ?thesis
    unfolding get_targets_from_xml_root_def
    by (simp add: for_each_option_tags [OF assms] for_each_class_nodes [OF cl] class_values_findall)
qed


text \<open>
  Claim C4, as stated, fails: \<open>tag.attrib['value']\<close> raises \<open>KeyError\<close> for an option
  element without a \<open>value\<close> attribute, and nothing catches it, so a document with such a
  malformed option makes the call fail.
\<close>

theorem get_targets_from_xml_root_malformed_counterexample:
  "get_targets_from_xml_root no_value_doc (\<lambda>m. True) = Inl (KeyError ''value'')"
  by (simp add: get_targets_from_xml_root_def no_value_doc_def findall_option_def
        option_tag_step_def get_attr_def XML_VALUE_def)

text \<open>
  Claim C4, amended. For every document whose option elements all carry a \<open>value\<close>
  attribute, \<open>get_targets_from_xml_root\<close> returns, and what it returns is fixed by the
  trimmed option values and the \<open>class\<close> attributes alone: for every option whose trimmed
  value is a bare filename ending in \<open>.apk\<close> (which is exactly when \<open>_APK_RE\<close> matches
  it), the value without its last four characters is among the targets when the module
  lookup accepts it, and is otherwise among the names logged as skipped; apart from the
  perf script and the compatibility harness nothing else is a target, and only rejected
  names are skipped. An unverifiable name never makes the call fail.
\<close>

theorem get_targets_from_xml_root_targets:
  "(map (\<lambda>tg. get_attr tg XML_VALUE) (findall_option xml_root) = map Inr raws \<longrightarrow>
      get_targets_from_xml_root xml_root is_module =
        Inr (option_targets is_module (map strip raws) \<union> class_targets (class_values xml_root),
             skipped_targets is_module (map strip raws))) \<and>
   (v \<in> set vs \<and> bare_apk_filename v \<longrightarrow>
      (is_module (apk_name v) \<longrightarrow> apk_name v \<in> option_targets is_module vs) \<and>
      (\<not> is_module (apk_name v) \<longrightarrow> apk_name v \<in> set (skipped_targets is_module vs))) \<and>
   (t \<in> option_targets is_module vs \<longrightarrow>
      t = PERF_SETUP_LABEL \<or>
      (is_module t \<and> (\<exists>v \<in> set vs. bare_apk_filename v \<and> t = apk_name v))) \<and>
   (w \<in> set (skipped_targets is_module vs) \<longrightarrow> \<not> is_module w) \<and>
   (rmatch APK_RE (strip raw) \<noteq> None) = bare_apk_filename (strip raw)"
proof (intro conjI impI)
  assume "map (\<lambda>tg. get_attr tg XML_VALUE) (findall_option xml_root) = map Inr raws"
  then show "get_targets_from_xml_root xml_root is_module =
        Inr (option_targets is_module (map strip raws) \<union> class_targets (class_values xml_root),
             skipped_targets is_module (map strip raws))"
    by (rule get_targets_from_xml_root_eq)
next
  assume "v \<in> set vs \<and> bare_apk_filename v" and "is_module (apk_name v)"
  then show "apk_name v \<in> option_targets is_module vs"
    by (auto simp: option_targets_def)
next
  assume "v \<in> set vs \<and> bare_apk_filename v" and "\<not> is_module (apk_name v)"
  then show "apk_name v \<in> set (skipped_targets is_module vs)"
    by (auto simp: skipped_targets_def)
next
  assume "t \<in> option_targets is_module vs"
  then show "t = PERF_SETUP_LABEL \<or>
      (is_module t \<and> (\<exists>v \<in> set vs. bare_apk_filename v \<and> t = apk_name v))"
    by (auto simp: option_targets_def split: if_splits)
next
  assume "w \<in> set (skipped_targets is_module vs)"
  then show "\<not> is_module w" by (auto simp: skipped_targets_def)
next
  show "(rmatch APK_RE (strip raw) \<noteq> None) = bare_apk_filename (strip raw)"
    by (rule strip_apk_match_iff)
qed

text \<open>
  The two examples of the specification (one option \<open>foo.apk\<close>, with \<open>foo\<close> known to the
  module lookup and with \<open>foo\<close> unknown), and the document with two \<open>.apk\<close> options,
  where both names are returned when both are modules and \<open>Bar\<close> is skipped when only
  \<open>foo\<close> is.
\<close>

theorem get_targets_from_xml_root_targets_witness:
  "get_targets_from_xml_root foo_doc (\<lambda>m. m = ''foo'') = Inr ({''foo''}, []) \<and>
   get_targets_from_xml_root foo_doc (\<lambda>m. False) = Inr ({}, [''foo'']) \<and>
   get_targets_from_xml_root two_apk_doc (\<lambda>m. True) =
     Inr ({''foo'', ''Bar'', ''perf-setup.sh'', ''cts-tradefed''}, []) \<and>
   get_targets_from_xml_root two_apk_doc (\<lambda>m. m = ''foo'') =
     Inr ({''foo'', ''perf-setup.sh'', ''cts-tradefed''}, [''Bar''])"
proof -
  have st: "strip ''foo.apk'' = ''foo.apk''" "strip '' Bar.APK '' = ''Bar.APK''"
    "strip ''run perf-setup.sh now'' = ''run perf-setup.sh now''"
    "strip ''com.android.compatibility.common.tradefed.testtype.JarHostTest'' =
       ''com.android.compatibility.common.tradefed.testtype.JarHostTest''"
    by (simp_all add: strip_def lstrip_def rstrip_def isspace_def)
  have bare: "bare_apk_filename ''foo.apk''" "bare_apk_filename ''Bar.APK''"
    "\<not> bare_apk_filename ''run perf-setup.sh now''"
    by (simp_all add: bare_apk_filename_def lower_def)
  have names: "apk_name ''foo.apk'' = ''foo''" "apk_name ''Bar.APK'' = ''Bar''"
    by (simp_all add: apk_name_def)
  have v1: "map (\<lambda>tg. get_attr tg XML_VALUE) (findall_option foo_doc) = map Inr [''foo.apk'']"
    by (simp add: foo_doc_def findall_option_def get_attr_def XML_VALUE_def)
  have v2: "map (\<lambda>tg. get_attr tg XML_VALUE) (findall_option two_apk_doc) =
              map Inr [''foo.apk'', '' Bar.APK '', ''run perf-setup.sh now'']"
    by (simp add: two_apk_doc_def findall_option_def get_attr_def XML_VALUE_def)
  have c1: "class_targets (class_values foo_doc) = {}"
    by (simp add: class_targets_def class_values_def foo_doc_def List.map_filter_simps)
  have c2: "class_targets (class_values two_apk_doc) = {''cts-tradefed''}"
    by (simp add: class_targets_def class_values_def two_apk_doc_def List.map_filter_simps st
          startswith_def COMPATIBILITY_PACKAGE_PREFIX_def CTS_JAR_def)
  note r1 = get_targets_from_xml_root_targets [THEN conjunct1, THEN mp, OF v1]
  note r2 = get_targets_from_xml_root_targets [THEN conjunct1, THEN mp, OF v2]
  show ?thesis
    unfolding r1 r2 c1 c2
    by (simp add: option_targets_def skipped_targets_def st bare names PERF_SETUP_LABEL_def
          startswith_def insert_commute)
qed

section \<open>Claim about the \<open>push\<close> option of \<open>get_targets_from_vts_xml\<close>\<close>








section \<open>Claims about \<open>find_parent_module_dir\<close>\<close>

lemma find_parent_module_dir_loop_leaves:
  assumes "find_parent_module_dir_loop e r m c = Some y"
  shows "(\<forall>p \<in> S. p \<noteq> r \<and> \<not> isfile e (os_join p m) \<and> dirname p \<in> S) \<longrightarrow> c \<notin> S"
proof (rule find_parent_module_dir_loop.raw_induct
    [where P = "\<lambda>e r m c y. (\<forall>p \<in> S. p \<noteq> r \<and> \<not> isfile e (os_join p m) \<and> dirname p \<in> S) \<longrightarrow> c \<notin> S",
     OF _ assms])
  fix loop :: "env \<Rightarrow> string \<Rightarrow> string \<Rightarrow> string \<Rightarrow> (error + string) option"
  fix e r m c and y :: "error + string"
  assume IH: "\<And>e r m c y. loop e r m c = Some y \<Longrightarrow>
      (\<forall>p \<in> S. p \<noteq> r \<and> \<not> isfile e (os_join p m) \<and> dirname p \<in> S) \<longrightarrow> c \<notin> S"
    and eq: "(if c \<noteq> r
              then if isfile e (os_join c m) then Some (Inr (relpath e c r))
                   else loop e r m (dirname c)
              else Some (Inl TestWithNoModuleError)) = Some y"
  show "(\<forall>p \<in> S. p \<noteq> r \<and> \<not> isfile e (os_join p m) \<and> dirname p \<in> S) \<longrightarrow> c \<notin> S"
  proof (intro impI notI)
    assume closed: "\<forall>p \<in> S. p \<noteq> r \<and> \<not> isfile e (os_join p m) \<and> dirname p \<in> S" and c: "c \<in> S"
    then have ne: "c \<noteq> r" and nf: "\<not> isfile e (os_join c m)" and d: "dirname c \<in> S"
      by auto
    from eq ne nf have "loop e r m (dirname c) = Some y" by simp
    from IH [OF this] closed d show False by simp
  qed
qed

lemma find_parent_module_dir_loop_diverges:
  assumes closed: "\<forall>p \<in> S. p \<noteq> root_dir \<and> \<not> isfile e (os_join p m) \<and> dirname p \<in> S"
    and cur: "cur \<in> S"
  shows "find_parent_module_dir_loop e root_dir m cur = None"
proof (cases "find_parent_module_dir_loop e root_dir m cur")
  case None
  then show ?thesis .
next
  case (Some y)
  from find_parent_module_dir_loop_leaves [OF Some, of S] closed cur show ?thesis by simp
qed











text \<open>
  Claim C3 does not hold of the code. \<open>is_equal_or_sub_dir\<close> compares the two real paths
  with \<open>os.path.commonprefix\<close>, character by character, so the sibling \<open>/r/ab\<close> of the
  root \<open>/r/a\<close> passes the check although it is not below the root. No \<open>ValueError\<close> is
  raised; the walk then goes from \<open>/r/ab\<close> to \<open>/r\<close> and \<open>/\<close>, never meets the string
  \<open>/r/a\<close>, and with no marker file on the way it does not end.
\<close>

theorem find_parent_module_dir_sibling_not_rejected:
  "isdir sibling_env ''/r/ab'' \<and> isdir sibling_env ''/r/a'' \<and>
   is_equal_or_sub_dir sibling_env ''/r/ab'' ''/r/a'' \<and>
   find_parent_module_dir sibling_env ''/r/a'' ''/r/ab'' ''AndroidTest.xml'' = None"
proof -
  have sub: "is_equal_or_sub_dir sibling_env ''/r/ab'' ''/r/a''"
    by (simp add: is_equal_or_sub_dir_def sibling_env_def)
  have up: "dirname ''/r/ab'' = ''/r''" "dirname ''/r'' = ''/''" "dirname ''/'' = ''/''"
    by (simp_all add: dirname_def os_split_def rstrip_chars_def)
  have "find_parent_module_dir_loop sibling_env ''/r/a'' ''AndroidTest.xml'' ''/r/ab'' = None"
  proof (rule find_parent_module_dir_loop_diverges [where S = "{''/r/ab'', ''/r'', ''/''}"])
    show "\<forall>p \<in> {''/r/ab'', ''/r'', ''/''}. p \<noteq> ''/r/a'' \<and>
            \<not> isfile sibling_env (os_join p ''AndroidTest.xml'') \<and>
            dirname p \<in> {''/r/ab'', ''/r'', ''/''}"
      by (simp add: up sibling_env_def)
  qed simp
  with sub show ?thesis
    by (simp add: find_parent_module_dir_def sibling_env_def)
qed

text \<open>
  In particular the call on the sibling directory does not raise the input-validation
  error, although both paths are existing directories and the start is not below the root.
\<close>

theorem find_parent_module_dir_sibling_not_rejected_witness:
  "isdir sibling_env ''/r/ab'' \<and> isdir sibling_env ''/r/a'' \<and>
   find_parent_module_dir sibling_env ''/r/a'' ''/r/ab'' ''AndroidTest.xml'' \<noteq> Some (Inl ValueError)"
  using find_parent_module_dir_sibling_not_rejected by simp

section \<open>Claim about \<open>_get_vts_push_group_targets\<close>\<close>

lemma push_file_lines_returns:
  assumes "\<forall>line \<in> set f. endswith (strip line) VTS_PUSH_SUFFIX \<longrightarrow>
             (\<exists>T. \<forall>fuel \<ge> k. g fuel (strip line) = Some (Inr T))"
  shows "\<exists>T. \<forall>fuel \<ge> k. push_file_lines (g fuel) rel_out_dir f acc = Some (Inr T)"
  using assms
proof (induction f arbitrary: acc)
  case Nil
  show ?case by simp
next
  case (Cons line rest)
  from Cons.prems have rest: "\<forall>line \<in> set rest. endswith (strip line) VTS_PUSH_SUFFIX \<longrightarrow>
             (\<exists>T. \<forall>fuel \<ge> k. g fuel (strip line) = Some (Inr T))" by simp
  show ?case
  proof (cases "strip line = []")
    case True
    with Cons.IH [OF rest, of acc] show ?thesis by (simp add: Let_def)
  next
    case False
    show ?thesis
    proof (cases "endswith (strip line) VTS_PUSH_SUFFIX")
      case True
      with Cons.prems obtain T' where T': "\<forall>fuel \<ge> k. g fuel (strip line) = Some (Inr T')"
        by auto
      from Cons.IH [OF rest, of "acc \<union> T'"] obtain T where
        "\<forall>fuel \<ge> k. push_file_lines (g fuel) rel_out_dir rest (acc \<union> T') = Some (Inr T)" by blast
      with T' True False have "\<forall>fuel \<ge> k. push_file_lines (g fuel) rel_out_dir (line # rest) acc = Some (Inr T)"
        by (simp add: Let_def)
      then show ?thesis by blast
    next
      case nosuffix: False
      with False Cons.IH [OF rest] show ?thesis by (simp add: Let_def)
    qed
  qed
qed

lemma get_vts_push_group_targets_ranked:
  assumes closed: "\<forall>p \<in> M. \<exists>f. file_lines e (os_join (VTS_PUSH_DIR e) p) = Some f \<and>
             (\<forall>line \<in> set f. endswith (strip line) VTS_PUSH_SUFFIX \<longrightarrow>
                strip line \<in> M \<and> rank (strip line) < rank p)"
  shows "p \<in> M \<Longrightarrow> \<exists>T. \<forall>fuel. rank p < fuel \<longrightarrow>
           get_vts_push_group_targets fuel e p rel_out_dir = Some (Inr T)"
proof (induction "rank p" arbitrary: p rule: less_induct)
  case less
  let ?g = "\<lambda>fuel nested_file. get_vts_push_group_targets fuel e nested_file rel_out_dir"
  from closed less.prems obtain f where f: "file_lines e (os_join (VTS_PUSH_DIR e) p) = Some f"
    and refs: "\<forall>line \<in> set f. endswith (strip line) VTS_PUSH_SUFFIX \<longrightarrow>
                strip line \<in> M \<and> rank (strip line) < rank p" by blast
  have "\<forall>line \<in> set f. endswith (strip line) VTS_PUSH_SUFFIX \<longrightarrow>
          (\<exists>T. \<forall>fuel \<ge> rank p. ?g fuel (strip line) = Some (Inr T))"
  proof (intro ballI impI)
    fix line
    assume "line \<in> set f" and "endswith (strip line) VTS_PUSH_SUFFIX"
    with refs have m: "strip line \<in> M" and r: "rank (strip line) < rank p" by auto
    from less.hyps [OF r m] obtain T where
      "\<forall>fuel. rank (strip line) < fuel \<longrightarrow> ?g fuel (strip line) = Some (Inr T)" by blast
    with r have "\<forall>fuel \<ge> rank p. ?g fuel (strip line) = Some (Inr T)" by auto
    then show "\<exists>T. \<forall>fuel \<ge> rank p. ?g fuel (strip line) = Some (Inr T)" by blast
  qed
  from push_file_lines_returns [where g = ?g, OF this, of rel_out_dir "{}"] obtain T where
    T: "\<forall>fuel \<ge> rank p. push_file_lines (?g fuel) rel_out_dir f {} = Some (Inr T)" by blast
  have "\<forall>fuel. rank p < fuel \<longrightarrow> get_vts_push_group_targets fuel e p rel_out_dir = Some (Inr T)"
  proof (intro allI impI)
    fix fuel
    assume "rank p < fuel"
    then obtain fuel' where fuel: "fuel = Suc fuel'" and "rank p \<le> fuel'"
      by (cases fuel) auto
    with T have "push_file_lines (?g fuel') rel_out_dir f {} = Some (Inr T)" by simp
    with f fuel show "get_vts_push_group_targets fuel e p rel_out_dir = Some (Inr T)"
      by (simp add: Let_def)
  qed
  then show ?case by blast
qed

lemma cyclic_push_dir: "VTS_PUSH_DIR cyclic_env = push_dir"
  by (simp add: VTS_PUSH_DIR_def cyclic_env_def push_dir_def os_join_def startswith_def endswith_def)

lemma acyclic_push_dir: "VTS_PUSH_DIR acyclic_env = push_dir"
  by (simp add: VTS_PUSH_DIR_def acyclic_env_def push_dir_def os_join_def startswith_def endswith_def)

lemma push_dir_join: "os_join push_dir ''a.push'' = push_dir @ ''/a.push''"
  "os_join push_dir ''b.push'' = push_dir @ ''/b.push''"
  by (simp_all add: push_dir_def os_join_def startswith_def endswith_def)

text \<open>
  Claim C1, as stated, fails: the function has no cycle guard. On a manifest that names
  itself every call opens the same manifest again, so no amount of fuel lets the
  expansion return. (CPython ends such a recursion with its recursion-depth error; either
  way no target set is returned, and the manifest on the expansion path is re-entered.)
\<close>

theorem get_vts_push_group_targets_cycle_counterexample:
  "\<forall>fuel. get_vts_push_group_targets fuel cyclic_env ''a.push'' ''out'' = None"
proof
  fix fuel
  have l: "strip (''a.push'' @ [newline]) = ''a.push''"
    by (simp add: strip_def lstrip_def rstrip_def isspace_def newline_def)
  have f: "file_lines cyclic_env (push_dir @ ''/a.push'') = Some [''a.push'' @ [newline]]"
    by (simp add: cyclic_env_def)
  show "get_vts_push_group_targets fuel cyclic_env ''a.push'' ''out'' = None"
  proof (induction fuel)
    case 0
    show ?case by simp
  next
    case (Suc fuel)
    then show ?case
      by (simp add: cyclic_push_dir push_dir_join f l [simplified] Let_def endswith_def
            VTS_PUSH_SUFFIX_def)
  qed
qed


text \<open>
  Claim C1, amended. Let \<open>M\<close> be a set of manifest names, each readable, such that every
  line of a manifest of \<open>M\<close> that ends with \<open>.push\<close> names a manifest of \<open>M\<close> of strictly
  smaller rank; a rank exists exactly when the reference graph has no cycle. Then for
  every manifest of \<open>M\<close> the expansion terminates and returns a build-target set: with
  more fuel than the rank of the manifest the result is that set, whatever the fuel.
\<close>

theorem get_vts_push_group_targets_acyclic_terminates:
  assumes "push_file \<in> M"
    and "\<forall>p \<in> M. \<exists>f. file_lines e (os_join (VTS_PUSH_DIR e) p) = Some f \<and>
             (\<forall>line \<in> set f. endswith (strip line) VTS_PUSH_SUFFIX \<longrightarrow>
                strip line \<in> M \<and> rank (strip line) < rank p)"
  shows "\<exists>targets. \<forall>fuel. rank push_file < fuel \<longrightarrow>
           get_vts_push_group_targets fuel e push_file rel_out_dir = Some (Inr targets)"
  using assms(2,1) by (rule get_vts_push_group_targets_ranked)

text \<open>
  On the manifests without a cycle, \<open>a.push\<close> has rank 1 and \<open>b.push\<close> rank 0: the
  expansion of \<open>a.push\<close> returns the same set for fuel 2 and fuel 7, namely the two
  artifacts, the one reachable twice counted once.
\<close>

theorem get_vts_push_group_targets_acyclic_terminates_witness:
  "(\<exists>targets. get_vts_push_group_targets 2 acyclic_env ''a.push'' ''out'' = Some (Inr targets) \<and>
              get_vts_push_group_targets 7 acyclic_env ''a.push'' ''out'' = Some (Inr targets)) \<and>
   get_vts_push_group_targets 2 acyclic_env ''a.push'' ''out'' =
     Some (Inr {''out/DATA/bin/y'', ''out/DATA/lib/x.so''})"
proof -
  let ?M = "{''a.push'', ''b.push''}"
  let ?rank = "\<lambda>p. if p = ''a.push'' then 1 else (0::nat)"
  have st: "strip (''b.push'' @ [newline]) = ''b.push''" "strip [newline] = []"
    "strip (''DATA/lib/x.so->/data/x.so'' @ [newline]) = ''DATA/lib/x.so->/data/x.so''"
    "strip (''DATA/bin/y->/data/y'' @ [newline]) = ''DATA/bin/y->/data/y''"
    by (simp_all add: strip_def lstrip_def rstrip_def isspace_def newline_def)
  have fa: "file_lines acyclic_env (push_dir @ ''/a.push'') =
      Some [''b.push'' @ [newline], [newline], ''DATA/lib/x.so->/data/x.so'' @ [newline]]"
    and fb: "file_lines acyclic_env (push_dir @ ''/b.push'') =
      Some [''DATA/bin/y->/data/y'' @ [newline], ''DATA/lib/x.so->/data/x.so'' @ [newline]]"
    by (simp_all add: acyclic_env_def push_dir_def)
  have sfx: "endswith ''b.push'' VTS_PUSH_SUFFIX" "\<not> endswith [] VTS_PUSH_SUFFIX"
    "\<not> endswith ''DATA/lib/x.so->/data/x.so'' VTS_PUSH_SUFFIX"
    "\<not> endswith ''DATA/bin/y->/data/y'' VTS_PUSH_SUFFIX"
    by (simp_all add: endswith_def VTS_PUSH_SUFFIX_def)
  have closed: "\<forall>p \<in> ?M. \<exists>f. file_lines acyclic_env (os_join (VTS_PUSH_DIR acyclic_env) p) = Some f \<and>
             (\<forall>line \<in> set f. endswith (strip line) VTS_PUSH_SUFFIX \<longrightarrow>
                strip line \<in> ?M \<and> ?rank (strip line) < ?rank p)"
    by (simp add: acyclic_push_dir push_dir_join fa fb st [simplified] sfx)
  have "''a.push'' \<in> ?M" by simp
  from get_vts_push_group_targets_acyclic_terminates [OF this closed, of "''out''"]
  obtain targets where
    t: "\<forall>fuel. 1 < fuel \<longrightarrow> get_vts_push_group_targets fuel acyclic_env ''a.push'' ''out'' = Some (Inr targets)"
    by auto
  then have "get_vts_push_group_targets 2 acyclic_env ''a.push'' ''out'' = Some (Inr targets)"
    and "get_vts_push_group_targets 7 acyclic_env ''a.push'' ''out'' = Some (Inr targets)"
    by simp_all
  then have part1: "\<exists>targets. get_vts_push_group_targets 2 acyclic_env ''a.push'' ''out'' = Some (Inr targets) \<and>
              get_vts_push_group_targets 7 acyclic_env ''a.push'' ''out'' = Some (Inr targets)"
    by blast
  have left: "hd (split_str VTS_PUSH_DELIM ''DATA/lib/x.so->/data/x.so'') = ''DATA/lib/x.so''"
    "hd (split_str VTS_PUSH_DELIM ''DATA/bin/y->/data/y'') = ''DATA/bin/y''"
    by (simp_all add: VTS_PUSH_DELIM_def split_str_eval split_str_Nil startswith_def)
  have joined: "os_join ''out'' ''DATA/lib/x.so'' = ''out/DATA/lib/x.so''"
    "os_join ''out'' ''DATA/bin/y'' = ''out/DATA/bin/y''"
    by (simp_all add: os_join_def startswith_def endswith_def)
  have two: "(2::nat) = Suc (Suc 0)" by simp
  have part2: "get_vts_push_group_targets 2 acyclic_env ''a.push'' ''out'' =
     Some (Inr {''out/DATA/bin/y'', ''out/DATA/lib/x.so''})"
    unfolding two
    by (simp add: acyclic_push_dir push_dir_join fa fb st [simplified] sfx left joined Let_def
          insert_commute)
  from part1 part2 show ?thesis by blast
qed

end
